theory Spec2Isabelle
  imports Main
begin

section \<open>Strings and optional values of the source\<close>

text \<open>
  A JavaScript string is modelled as a \<^typ>\<open>string\<close>: a list of code units, each below 256.
  An optional field (\<^verbatim>\<open>title?: string\<close>) is a \<^typ>\<open>string option\<close>, with \<open>None\<close> for
  \<^verbatim>\<open>undefined\<close>. The operator \<^verbatim>\<open>a || b\<close> yields \<open>a\<close> when \<open>a\<close> is truthy and \<open>b\<close>
  otherwise; a string is truthy when it is not empty, a number when it is not zero.
\<close>

definition truthy :: "string option \<Rightarrow> bool" where
  "truthy v = (case v of None \<Rightarrow> False | Some s \<Rightarrow> s \<noteq> [])"

definition jsOr :: "string option \<Rightarrow> string option \<Rightarrow> string option" where
  "jsOr a b = (if truthy a then a else b)"

text \<open>The class \<^verbatim>\<open>\s\<close> of a regular expression, and of \<^verbatim>\<open>trim()\<close>, on code units below 256:
  tab, line feed, vertical tab, form feed, carriage return, space and the no-break space.\<close>

definition isSpace :: "char \<Rightarrow> bool" where
  "isSpace c = (c \<in> set [CHR 0x09, CHR 0x0A, CHR 0x0B, CHR 0x0C, CHR 0x0D, CHR 0x20, CHR 0xA0])"

definition trim :: "string \<Rightarrow> string" where
  "trim s = rev (dropWhile isSpace (rev (dropWhile isSpace s)))"

text \<open>\<^verbatim>\<open>toLowerCase\<close> on code units below 256: the letters A-Z and the capital letters from
  U+00C0 to U+00DE (the multiplication sign U+00D7 is none) move up by 32.\<close>

definition toLowerChar :: "char \<Rightarrow> char" where
  "toLowerChar c =
     (let n = of_char c :: nat
      in if (65 \<le> n \<and> n \<le> 90) \<or> (192 \<le> n \<and> n \<le> 222 \<and> n \<noteq> 215) then char_of (n + 32) else c)"

definition toLowerCase :: "string \<Rightarrow> string" where
  "toLowerCase s = map toLowerChar s"

text \<open>
  \<^verbatim>\<open>toUpperCase\<close> on a string of one code unit below 256: the letters a-z and the small letters
  from U+00E0 to U+00FE (the division sign U+00F7 is none) move down by 32, and the sharp s
  U+00DF becomes \<^verbatim>\<open>SS\<close>. The capitals of the micro sign U+00B5 and of the y with diaeresis
  U+00FF are code units above 255, which the model does not have: \<open>capitalOutside\<close> holds of the
  two, the model leaves them as they are, and a statement that depends on their capitals excludes
  them.
\<close>

definition capitalOutside :: "char \<Rightarrow> bool" where
  "capitalOutside c = (c = CHR 0xB5 \<or> c = CHR 0xFF)"

definition toUpperChar :: "char \<Rightarrow> string" where
  "toUpperChar c =
     (let n = of_char c :: nat
      in if (97 \<le> n \<and> n \<le> 122) \<or> (224 \<le> n \<and> n \<le> 254 \<and> n \<noteq> 247) then [char_of (n - 32)]
         else if n = 223 then ''SS''
         else [c])"

text \<open>\<^verbatim>\<open>s.includes(p)\<close>: \<open>p\<close> occurs in \<open>s\<close> as a contiguous block.\<close>

fun includesStr :: "string \<Rightarrow> string \<Rightarrow> bool" where
  "includesStr [] p = (p = [])"
| "includesStr (c # cs) p = (take (length p) (c # cs) = p \<or> includesStr cs p)"

text \<open>\<^verbatim>\<open>s.split(d)\<close> on one delimiter character, and \<^verbatim>\<open>parts.join(sep)\<close>.\<close>

fun split :: "char \<Rightarrow> string \<Rightarrow> string list" where
  "split d [] = [[]]"
| "split d (c # cs) =
     (if c = d then [] # split d cs
      else (case split d cs of [] \<Rightarrow> [[c]] | w # ws \<Rightarrow> (c # w) # ws))"

fun join :: "string \<Rightarrow> string list \<Rightarrow> string" where
  "join sep [] = []"
| "join sep [p] = p"
| "join sep (p # q # ps) = p @ sep @ join sep (q # ps)"

section \<open>normalize.ts\<close>

subsection \<open>sanitize\<close>

text \<open>The characters of the class \<^verbatim>\<open>[<>:"/\\|?*]\<close>.\<close>

definition invalidChars :: "char list" where
  "invalidChars =
     [CHR ''<'', CHR ''>'', CHR '':'', CHR 0x22, CHR ''/'', CHR 0x5C, CHR ''|'', CHR ''?'', CHR ''*'']"

definition removeInvalid :: "string \<Rightarrow> string" where
  "removeInvalid s = filter (\<lambda>c. c \<notin> set invalidChars) s"

text \<open>\<^verbatim>\<open>.replace(/\s+/g, '_')\<close>: every maximal run of white space becomes one underscore.\<close>

function replaceSpaces :: "string \<Rightarrow> string" where
  "replaceSpaces [] = []"
| "replaceSpaces (c # cs) =
     (if isSpace c then CHR ''_'' # replaceSpaces (dropWhile isSpace cs)
      else c # replaceSpaces cs)"
  by pat_completeness auto
termination
  by (relation "measure length") (auto simp: length_dropWhile_le less_Suc_eq_le)

text \<open>\<^verbatim>\<open>.replace(/_+/g, '_')\<close>: every maximal run of underscores becomes one underscore.\<close>

function collapseUnderscores :: "string \<Rightarrow> string" where
  "collapseUnderscores [] = []"
| "collapseUnderscores (c # cs) =
     (if c = CHR ''_'' then CHR ''_'' # collapseUnderscores (dropWhile (\<lambda>x. x = CHR ''_'') cs)
      else c # collapseUnderscores cs)"
  by pat_completeness auto
termination
  by (relation "measure length") (auto simp: length_dropWhile_le less_Suc_eq_le)

text \<open>\<^verbatim>\<open>.replace(/^_|_$/g, '')\<close>: one underscore at the start and one at the end are removed.\<close>

definition dropLeadingUnderscore :: "string \<Rightarrow> string" where
  "dropLeadingUnderscore s = (case s of [] \<Rightarrow> [] | c # cs \<Rightarrow> if c = CHR ''_'' then cs else s)"

definition dropTrailingUnderscore :: "string \<Rightarrow> string" where
  "dropTrailingUnderscore s = (if s \<noteq> [] \<and> last s = CHR ''_'' then butlast s else s)"

definition trimUnderscores :: "string \<Rightarrow> string" where
  "trimUnderscores s = dropTrailingUnderscore (dropLeadingUnderscore s)"

definition sanitize :: "string \<Rightarrow> string" where
  "sanitize str = take 100 (trimUnderscores (collapseUnderscores (replaceSpaces (removeInvalid str))))"

subsection \<open>slugToTitle\<close>

text \<open>\<^verbatim>\<open>word.charAt(0).toUpperCase() + word.slice(1)\<close>.\<close>

definition capitalize :: "string \<Rightarrow> string" where
  "capitalize w = (case w of [] \<Rightarrow> [] | c # cs \<Rightarrow> toUpperChar c @ cs)"

definition slugToTitle :: "string \<Rightarrow> string" where
  "slugToTitle slug = join '' '' (map capitalize (split CHR ''-'' slug))"

subsection \<open>types.ts\<close>

datatype OrganizationMode = AUTO | DIFFICULTY | FLAT | CATEGORY

record Settings =
  repoFullName :: string
  branch :: string
  baseDir :: string
  organizationMode :: OrganizationMode
  overwrite :: bool
  includeHeader :: bool
  includeDifficultyFolder :: bool
  includeListFolderWhenKnown :: bool
  filenameIncludeSlug :: bool
  debugMode :: bool

definition DEFAULT_SETTINGS :: Settings where
  "DEFAULT_SETTINGS =
     \<lparr>repoFullName = [], branch = ''main'', baseDir = ''NeetSync'', organizationMode = AUTO,
      overwrite = True, includeHeader = True, includeDifficultyFolder = False,
      includeListFolderWhenKnown = True, filenameIncludeSlug = False, debugMode = False\<rparr>"

text \<open>The fields of \<^verbatim>\<open>MappingEntry\<close> carry the prefix \<open>m_\<close> and those of \<^verbatim>\<open>SolvedEntry\<close> the
  prefix \<open>s_\<close>, since \<^verbatim>\<open>QueueItem\<close> has fields of the same names.\<close>

record MappingEntry =
  m_title :: "string option"
  m_category :: "string option"
  m_listName :: "string option"
  m_difficulty :: "string option"
  m_sources :: "string list option"

record Mapping =
  version :: nat
  updatedAt :: int
  entries :: "string \<rightharpoonup> MappingEntry"

record SolvedEntry =
  s_title :: string
  s_category :: "string option"
  s_listName :: "string option"
  s_difficulty :: "string option"
  s_language :: string
  solvedAt :: int
  s_sha256 :: "string option"

datatype Source = dom | intercept

record QueueItem =
  item_id :: string
  slug :: string
  title :: string
  category :: "string option"
  listName :: "string option"
  difficulty :: "string option"
  language :: string
  code :: string
  meta :: "(string option \<times> string option) option"
  source :: Source
  at :: int
  retries :: nat
  lastAttempt :: "int option"

datatype Level = info | warn | error | success

text \<open>A log entry, without the identifier and the time stamp the logger adds.\<close>

record LogEntry =
  level :: Level
  message :: string
  details :: "string option"

text \<open>
  The table \<^verbatim>\<open>LANGUAGE_EXTENSIONS\<close> is an object literal, and so are the entries of the mapping
  and the solved set: a read under a key the object does not own finds what the object inherits
  from \<^verbatim>\<open>Object.prototype\<close>. Two of the inherited names are in lower case, \<^verbatim>\<open>constructor\<close> and
  \<^verbatim>\<open>__proto__\<close>; the one is a function and the other an object, both truthy. In the table,
  \<^verbatim>\<open>LANGUAGE_EXTENSIONS[normalized] || 'txt'\<close> yields them and not \<^verbatim>\<open>'txt'\<close>, and the template
  string of \<^verbatim>\<open>buildFilePath\<close> renders them as the two strings of \<open>inheritedProperty\<close>, the
  rendering of the engine the extension runs on. In the mapping and the solved set every
  field read from an inherited value is \<^verbatim>\<open>undefined\<close>, as for a key that is absent, which is
  how the model reads them; an assignment under the key \<^verbatim>\<open>__proto__\<close> sets the prototype of the
  object and stores no entry.
\<close>

definition inheritedProperty :: "string \<Rightarrow> string option" where
  "inheritedProperty k =
     (if k = ''constructor'' then Some ''function Object() { [native code] }''
      else if k = ''__proto__'' then Some ''[object Object]''
      else None)"

definition LANGUAGE_EXTENSIONS :: "(string \<times> string) list" where
  "LANGUAGE_EXTENSIONS =
     [(''python'', ''py''), (''python3'', ''py''), (''javascript'', ''js''), (''typescript'', ''ts''),
      (''java'', ''java''), (''cpp'', ''cpp''), (''c++'', ''cpp''), (''c'', ''c''), (''csharp'', ''cs''),
      (''c#'', ''cs''), (''go'', ''go''), (''golang'', ''go''), (''rust'', ''rs''), (''swift'', ''swift''),
      (''kotlin'', ''kt''), (''scala'', ''scala''), (''ruby'', ''rb''), (''php'', ''php''),
      (''dart'', ''dart''), (''racket'', ''rkt''), (''elixir'', ''ex''), (''erlang'', ''erl'')]"

definition getExtension :: "string \<Rightarrow> string" where
  "getExtension lang =
     (let normalized = trim (toLowerCase lang)
      in case map_of LANGUAGE_EXTENSIONS normalized of
           Some e \<Rightarrow> e
         | None \<Rightarrow> (case inheritedProperty normalized of Some v \<Rightarrow> v | None \<Rightarrow> ''txt''))"

subsection \<open>Normalising names and building the path\<close>

text \<open>\<^verbatim>\<open>.replace(/&/g, 'And')\<close>.\<close>

definition replaceAmp :: "string \<Rightarrow> string" where
  "replaceAmp s = concat (map (\<lambda>c. if c = CHR ''&'' then ''And'' else [c]) s)"

definition normalizeCategory :: "string \<Rightarrow> string" where
  "normalizeCategory cat = sanitize (trim (replaceAmp cat))"

definition normalizeListName :: "string \<Rightarrow> string" where
  "normalizeListName l = sanitize (trim (replaceAmp l))"

definition normalizeDifficulty :: "string option \<Rightarrow> string option" where
  "normalizeDifficulty d =
     (case d of
        None \<Rightarrow> None
      | Some s \<Rightarrow>
          if s = [] then None
          else let lower = trim (toLowerCase s)
               in if includesStr lower ''easy'' then Some ''Easy''
                  else if includesStr lower ''medium'' then Some ''Medium''
                  else if includesStr lower ''hard'' then Some ''Hard''
                  else None)"

text \<open>The body of \<^verbatim>\<open>buildFilePath\<close> in two parts. First the \<^verbatim>\<open>switch\<close>: the folders between the
  base directory and the file name, by organisation mode.\<close>

definition folders ::
  "Settings \<Rightarrow> string option \<Rightarrow> string option \<Rightarrow> string option \<Rightarrow> string list" where
  "folders settings cat lst difficultyNorm =
     (case organizationMode settings of
        AUTO \<Rightarrow>
          [if includeListFolderWhenKnown settings \<and> truthy lst
           then normalizeListName (the lst) else ''Problems'']
          @ (if includeDifficultyFolder settings \<and> truthy difficultyNorm
             then [the difficultyNorm] else [])
          @ [if truthy cat then normalizeCategory (the cat) else ''Unsorted'']
      | CATEGORY \<Rightarrow>
          [''Problems'', if truthy cat then normalizeCategory (the cat) else ''Unsorted'']
      | DIFFICULTY \<Rightarrow>
          [''Problems'', if truthy difficultyNorm then the difficultyNorm else ''Unknown_Difficulty'']
      | FLAT \<Rightarrow> [''Problems''])"

text \<open>Then the file name.\<close>

definition buildFilename :: "Settings \<Rightarrow> string \<Rightarrow> string \<Rightarrow> string \<Rightarrow> string" where
  "buildFilename settings slg ttl lang =
     (let ext = getExtension lang;
          sanitizedTitle = sanitize (if ttl \<noteq> [] then ttl else slugToTitle slg)
      in if filenameIncludeSlug settings then slg @ ''__'' @ sanitizedTitle @ ''.'' @ ext
         else sanitizedTitle @ ''.'' @ ext)"

definition buildFilePath ::
  "Settings \<Rightarrow> string \<Rightarrow> string \<Rightarrow> string \<Rightarrow> MappingEntry option \<Rightarrow> string option \<Rightarrow> string" where
  "buildFilePath settings slg ttl lang mappingEntry diff =
     (let cat = Option.bind mappingEntry m_category;
          lst = Option.bind mappingEntry m_listName;
          difficultyNorm = normalizeDifficulty (jsOr diff (Option.bind mappingEntry m_difficulty))
      in join ''/'' ([baseDir settings] @ folders settings cat lst difficultyNorm
                     @ [buildFilename settings slg ttl lang]))"

subsection \<open>generateHeader\<close>

text \<open>Functions of the platform that the source calls and does not define: the SHA-256 digest in
  hexadecimal, the rendering of a time by \<^verbatim>\<open>Date.prototype.toISOString\<close>.\<close>

record platform =
  sha256 :: "string \<Rightarrow> string"
  toISOString :: "int \<Rightarrow> string"

record CommentStyle =
  cs_start :: string
  cs_line :: string
  cs_end :: string

definition getCommentStyle :: "string \<Rightarrow> CommentStyle" where
  "getCommentStyle lang =
     (let lower = toLowerCase lang
      in if list_ex (includesStr lower)
              [''java'', ''javascript'', ''typescript'', ''cpp'', ''c++'', ''c'', ''csharp'', ''c#'', ''go'',
               ''golang'', ''rust'', ''swift'', ''kotlin'', ''scala'', ''dart'', ''php'']
         then \<lparr>cs_start = ''/*'', cs_line = '' *'', cs_end = '' */''\<rparr>
         else if list_ex (includesStr lower) [''python'', ''python3'', ''ruby'', ''elixir'', ''perl'']
         then \<lparr>cs_start = ''#'', cs_line = ''#'', cs_end = ''#''\<rparr>
         else if list_ex (includesStr lower) [''racket'', ''lisp'', ''scheme'']
         then \<lparr>cs_start = '';'', cs_line = '';'', cs_end = '';''\<rparr>
         else if list_ex (includesStr lower) [''erlang'']
         then \<lparr>cs_start = ''%'', cs_line = ''%'', cs_end = ''%''\<rparr>
         else \<lparr>cs_start = ''//'', cs_line = ''//'', cs_end = ''//''\<rparr>)"

text \<open>A line of the header that is pushed only when its value is truthy.\<close>

definition optionalLine :: "CommentStyle \<Rightarrow> string \<Rightarrow> string option \<Rightarrow> string list" where
  "optionalLine cs label v =
     (case v of None \<Rightarrow> [] | Some x \<Rightarrow> if x = [] then [] else [cs_line cs @ label @ x])"

text \<open>\<^verbatim>\<open>new Date(t).toISOString()\<close> throws a RangeError when \<open>t\<close> is outside the range of a
  date, 8640000000000000 milliseconds on either side of the epoch.\<close>

definition validTime :: "int \<Rightarrow> bool" where
  "validTime t = (- 8640000000000000 \<le> t \<and> t \<le> 8640000000000000)"

text \<open>The result is \<open>Inl\<close> of the error's message when the function throws.\<close>

definition generateHeader ::
  "platform \<Rightarrow> string \<Rightarrow> string \<Rightarrow> string option \<Rightarrow> string option \<Rightarrow> string option \<Rightarrow> string
     \<Rightarrow> string option \<Rightarrow> string option \<Rightarrow> int \<Rightarrow> string + string" where
  "generateHeader P slg ttl diff cat lst lang runtime memory solvedAtTime =
     (let cs = getCommentStyle (if lang \<noteq> [] then lang else ''unknown'');
          lines =
            [cs_start cs,
             cs_line cs @ '' Problem: '' @ ttl,
             cs_line cs @ '' Slug: '' @ slg,
             cs_line cs @ '' URL: https://neetcode.io/problems/'' @ slg]
            @ optionalLine cs '' Difficulty: '' diff
            @ optionalLine cs '' Category: '' cat
            @ optionalLine cs '' List: '' lst
            @ optionalLine cs '' Runtime: '' runtime
            @ optionalLine cs '' Memory: '' memory
      in if solvedAtTime \<noteq> 0 \<and> \<not> validTime solvedAtTime then Inl ''Invalid time value''
         else Inr (join [CHR 0x0A]
                (filter (\<lambda>l. l \<noteq> [])
                   (lines
                    @ (if solvedAtTime \<noteq> 0
                       then [cs_line cs @ '' Solved: '' @ toISOString P solvedAtTime] else [])
                    @ [cs_end cs, []]))))"

section \<open>The durable store, the logger and the remote\<close>

text \<open>A request sent to the remote file store: reading a file, writing a file (path, content and
  the version token sent with it), and the regeneration of the two progress documents.\<close>

datatype RemoteCall =
  GetFile string
| PutFile string string "string option"
| SyncProgress

text \<open>
  The state the background worker keeps: the keys of the durable store, the logger's buffer, the
  flag \<^verbatim>\<open>isProcessing\<close> of queue.ts, and two records of effects, the requests sent to the
  remote, in order, and the number of passes scheduled by \<^verbatim>\<open>setTimeout\<close>. The field
  \<open>settings\<close> holds the stored settings already merged with the defaults.
\<close>

record Store =
  settings :: Settings
  token :: "string option"
  mapping :: Mapping
  solved :: "string \<rightharpoonup> SolvedEntry"
  queue :: "QueueItem list"
  lastSync :: "int option"
  logs :: "LogEntry list"
  isProcessing :: bool
  remoteCalls :: "RemoteCall list"
  scheduled :: nat

definition MAX_LOGS :: nat where
  "MAX_LOGS = 100"

definition addLog :: "Level \<Rightarrow> string \<Rightarrow> string option \<Rightarrow> Store \<Rightarrow> Store" where
  "addLog lv msg det st =
     st\<lparr>logs := take MAX_LOGS (\<lparr>level = lv, message = msg, details = det\<rparr> # logs st)\<rparr>"

subsection \<open>storage.ts\<close>

definition getToken :: "Store \<Rightarrow> string option" where
  "getToken st = (if truthy (token st) then token st else None)"

definition removeFromQueue :: "string \<Rightarrow> Store \<Rightarrow> Store" where
  "removeFromQueue i st = st\<lparr>queue := filter (\<lambda>item. item_id item \<noteq> i) (queue st)\<rparr>"

text \<open>\<^verbatim>\<open>updateQueueItem(id, {retries, lastAttempt})\<close>: the first item with the identifier is
  updated; nothing is saved when there is none.\<close>

fun updateFirst :: "string \<Rightarrow> nat \<Rightarrow> int \<Rightarrow> QueueItem list \<Rightarrow> QueueItem list" where
  "updateFirst i r t [] = []"
| "updateFirst i r t (item # items) =
     (if item_id item = i then item\<lparr>retries := r, lastAttempt := Some t\<rparr> # items
      else item # updateFirst i r t items)"

definition updateQueueItem :: "string \<Rightarrow> nat \<Rightarrow> int \<Rightarrow> Store \<Rightarrow> Store" where
  "updateQueueItem i r t st = st\<lparr>queue := updateFirst i r t (queue st)\<rparr>"

text \<open>The assignment \<^verbatim>\<open>object[key] = value\<close> on an object of entries: under the key
  \<^verbatim>\<open>__proto__\<close>, unless the object owns that key already, it sets the prototype, and the object
  that is saved holds no new entry. \<^verbatim>\<open>updateSolved\<close> assigns the spread of the entry stored
  before and of the new one; its one caller writes the new entry with every field, so the value
  assigned is the new entry.\<close>

definition assignEntry :: "string \<Rightarrow> 'v \<Rightarrow> (string \<rightharpoonup> 'v) \<Rightarrow> (string \<rightharpoonup> 'v)" where
  "assignEntry key v obj = (if key = ''__proto__'' \<and> obj key = None then obj else obj(key \<mapsto> v))"

definition updateSolved :: "string \<Rightarrow> SolvedEntry \<Rightarrow> Store \<Rightarrow> Store" where
  "updateSolved slg data st = st\<lparr>solved := assignEntry slg data (solved st)\<rparr>"

definition setLastSync :: "int \<Rightarrow> Store \<Rightarrow> Store" where
  "setLastSync t st = st\<lparr>lastSync := Some t\<rparr>"

subsection \<open>mergeMapping\<close>

record IncomingEntry =
  i_title :: "string option"
  i_category :: "string option"
  i_listName :: "string option"
  i_difficulty :: "string option"
  sourceUrl :: string

text \<open>\<^verbatim>\<open>[...new Set(xs)]\<close>: the elements of \<open>xs\<close> in the order of their first occurrence.\<close>

definition uniq :: "string list \<Rightarrow> string list" where
  "uniq xs = rev (remdups (rev xs))"

text \<open>The body of the loop of \<^verbatim>\<open>mergeMapping\<close>: the entry stored for the slug after the merge,
  from the entry stored before (\<open>None\<close> when there is none) and the incoming one.\<close>

definition mergeEntry :: "MappingEntry option \<Rightarrow> IncomingEntry \<Rightarrow> MappingEntry" where
  "mergeEntry existing entry =
     \<lparr>m_title = jsOr (i_title entry) (Option.bind existing m_title),
      m_category = jsOr (i_category entry) (Option.bind existing m_category),
      m_listName = jsOr (i_listName entry) (Option.bind existing m_listName),
      m_difficulty = jsOr (i_difficulty entry) (Option.bind existing m_difficulty),
      m_sources =
        Some (uniq ((case Option.bind existing m_sources of None \<Rightarrow> [] | Some srcs \<Rightarrow> srcs)
                    @ [sourceUrl entry]))\<rparr>"

fun mergeEntries ::
  "(string \<times> IncomingEntry) list \<Rightarrow> (string \<rightharpoonup> MappingEntry) \<Rightarrow> (string \<rightharpoonup> MappingEntry)" where
  "mergeEntries [] es = es"
| "mergeEntries ((slg, entry) # rest) es =
     mergeEntries rest (assignEntry slg (mergeEntry (es slg) entry) es)"

text \<open>\<open>newEntries\<close> lists the slugs of the incoming object with their entries, in the order of
  \<^verbatim>\<open>Object.entries\<close>; \<open>now\<close> is the value of \<^verbatim>\<open>Date.now()\<close>.\<close>

definition mergeMapping :: "(string \<times> IncomingEntry) list \<Rightarrow> int \<Rightarrow> Store \<Rightarrow> Store" where
  "mergeMapping newEntries now st =
     st\<lparr>mapping := (mapping st)\<lparr>entries := mergeEntries newEntries (entries (mapping st)),
                                  updatedAt := now\<rparr>\<rparr>"

subsection \<open>github.ts\<close>

text \<open>
  What the remote answers to a read: the version token of the file, or an error with its message
  (\<^verbatim>\<open>GitHub API error 404: ...\<close> for a file that does not exist). What it answers to a write:
  success, or an error with its message (a stale version token is one of them).
\<close>

datatype GetResponse = GetOk string | GetError string

datatype PutResponse = PutOk | PutError string

text \<open>
  The environment of the attempt on one queue item: the value of \<^verbatim>\<open>Date.now()\<close> at the
  backoff check, the answers of the remote to the read of \<^verbatim>\<open>commitSolutionFile\<close>, to the
  read of \<^verbatim>\<open>createOrUpdateFile\<close> and to the write, and the value of \<^verbatim>\<open>Date.now()\<close>
  when a retry is recorded.
\<close>

record attempt =
  checkedAt :: int
  firstGet :: GetResponse
  secondGet :: GetResponse
  putFile :: PutResponse
  failedAt :: int

text \<open>\<^verbatim>\<open>getFile\<close>: \<open>Inl\<close> of the message when it throws, \<open>Inr None\<close> for \<^verbatim>\<open>null\<close>.\<close>

definition getFile :: "GetResponse \<Rightarrow> string + string option" where
  "getFile r =
     (case r of
        GetOk sha \<Rightarrow> Inr (Some sha)
      | GetError msg \<Rightarrow> if includesStr msg ''404'' then Inr None else Inl msg)"

text \<open>\<^verbatim>\<open>createOrUpdateFile\<close>: the result is the message of the error thrown, if any.\<close>

definition createOrUpdateFile ::
  "attempt \<Rightarrow> string \<Rightarrow> string \<Rightarrow> string option \<Rightarrow> Store \<Rightarrow> string option \<times> Store" where
  "createOrUpdateFile att path content existingSha st =
     (let write = (\<lambda>sha s.
            (case putFile att of PutOk \<Rightarrow> None | PutError msg \<Rightarrow> Some msg,
             s\<lparr>remoteCalls := remoteCalls s @ [PutFile path content (if truthy sha then sha else None)]\<rparr>))
      in if truthy existingSha then write existingSha st
         else let st1 = st\<lparr>remoteCalls := remoteCalls st @ [GetFile path]\<rparr>
              in case getFile (secondGet att) of
                   Inl msg \<Rightarrow> (Some msg, st1)
                 | Inr existing \<Rightarrow> write existing st1)"

definition commitSolutionFile ::
  "attempt \<Rightarrow> string \<Rightarrow> string \<Rightarrow> bool \<Rightarrow> Store \<Rightarrow> bool \<times> Store" where
  "commitSolutionFile att filePath content ovw st =
     (let st1 = st\<lparr>remoteCalls := remoteCalls st @ [GetFile filePath]\<rparr>
      in case getFile (firstGet att) of
           Inl msg \<Rightarrow> (False, addLog error (''Failed to commit '' @ filePath) (Some msg) st1)
         | Inr existing \<Rightarrow>
             if existing \<noteq> None \<and> \<not> ovw
             then (True, addLog info (''File already exists, skipping: '' @ filePath) None st1)
             else (case createOrUpdateFile att filePath content existing st1 of
                     (Some msg, st2) \<Rightarrow>
                       (False, addLog error (''Failed to commit '' @ filePath) (Some msg) st2)
                   | (None, st2) \<Rightarrow> (True, addLog success (''Committed: '' @ filePath) None st2)))"

section \<open>queue.ts\<close>

definition MAX_RETRIES :: nat where
  "MAX_RETRIES = 5"

definition BASE_DELAY :: int where
  "BASE_DELAY = 1000"

definition MAX_DELAY :: int where
  "MAX_DELAY = 60000"

definition getBackoffDelay :: "nat \<Rightarrow> int" where
  "getBackoffDelay r = min (BASE_DELAY * 2 ^ r) MAX_DELAY"

text \<open>Decimal digits of a number, for the template strings.\<close>

function showNat :: "nat \<Rightarrow> string" where
  "showNat n = (if n < 10 then [char_of (48 + n)] else showNat (n div 10) @ [char_of (48 + n mod 10)])"
  by pat_completeness auto
termination
  by (relation "measure id") auto

definition showInt :: "int \<Rightarrow> string" where
  "showInt i = (if i < 0 then CHR ''-'' # showNat (nat (- i)) else showNat (nat i))"

text \<open>\<^verbatim>\<open>processItem\<close>: \<open>Inl\<close> of the message when it throws, \<open>Inr\<close> of \<^verbatim>\<open>result.success\<close>
  otherwise. The token, the repository and the branch go to the remote with each request and the
  commit message is the title behind a fixed prefix; the record of requests leaves them out.\<close>

definition processItem ::
  "platform \<Rightarrow> attempt \<Rightarrow> QueueItem \<Rightarrow> Settings \<Rightarrow> Mapping \<Rightarrow> Store \<Rightarrow> (string + bool) \<times> Store" where
  "processItem P att item sett mp st =
     (let mappingEntry = entries mp (slug item);
          filePath = buildFilePath sett (slug item) (title item) (language item) mappingEntry
                       (difficulty item)
      in if includeHeader sett
         then (case generateHeader P (slug item) (title item)
                      (jsOr (difficulty item) (Option.bind mappingEntry m_difficulty))
                      (jsOr (category item) (Option.bind mappingEntry m_category))
                      (jsOr (listName item) (Option.bind mappingEntry m_listName))
                      (language item)
                      (Option.bind (meta item) fst) (Option.bind (meta item) snd) (at item) of
                 Inl msg \<Rightarrow> (Inl msg, st)
               | Inr header \<Rightarrow>
                   (case commitSolutionFile att filePath (header @ code item) (overwrite sett) st of
                      (ok, st') \<Rightarrow> (Inr ok, st')))
         else (case commitSolutionFile att filePath (code item) (overwrite sett) st of
                 (ok, st') \<Rightarrow> (Inr ok, st')))"

text \<open>The guard at the head of the loop of \<^verbatim>\<open>processQueue\<close>: the item is skipped in this pass.
  The test \<^verbatim>\<open>item.lastAttempt && item.retries > 0\<close> fails for a time that is absent or 0.\<close>

definition skipForBackoff :: "int \<Rightarrow> QueueItem \<Rightarrow> bool" where
  "skipForBackoff now item =
     (case lastAttempt item of
        None \<Rightarrow> False
      | Some t \<Rightarrow> t \<noteq> 0 \<and> retries item > 0 \<and> now - t < getBackoffDelay (retries item - 1))"

record PassState =
  store :: Store
  processedCount :: nat
  errorCount :: nat

text \<open>The branch taken after a successful commit.\<close>

definition onSuccess :: "platform \<Rightarrow> QueueItem \<Rightarrow> Mapping \<Rightarrow> PassState \<Rightarrow> PassState" where
  "onSuccess P item mp ps =
     (let codeHash = sha256 P (slug item @ language item @ code item);
          entry = entries mp (slug item);
          data = \<lparr>s_title = title item,
                  s_category = jsOr (category item) (Option.bind entry m_category),
                  s_listName = jsOr (listName item) (Option.bind entry m_listName),
                  s_difficulty = jsOr (difficulty item) (Option.bind entry m_difficulty),
                  s_language = language item,
                  solvedAt = at item,
                  s_sha256 = Some codeHash\<rparr>
      in ps\<lparr>store := removeFromQueue (item_id item) (updateSolved (slug item) data (store ps)),
            processedCount := processedCount ps + 1\<rparr>)"

text \<open>The \<^verbatim>\<open>catch\<close> block, with the message of the error caught.\<close>

definition onFailure :: "attempt \<Rightarrow> QueueItem \<Rightarrow> string \<Rightarrow> PassState \<Rightarrow> PassState" where
  "onFailure att item msg ps =
     (if retries item \<ge> MAX_RETRIES
      then ps\<lparr>store := removeFromQueue (item_id item)
                 (addLog error (''Max retries reached for '' @ title item @ '', removing from queue'')
                    (Some msg) (store ps)),
              errorCount := errorCount ps + 1\<rparr>
      else ps\<lparr>store := addLog warn
                 (''Retry '' @ showNat (retries item + 1) @ ''/'' @ showNat MAX_RETRIES @ '' for ''
                  @ title item)
                 (Some msg)
                 (updateQueueItem (item_id item) (retries item + 1) (failedAt att) (store ps))\<rparr>)"

text \<open>The body of the loop for one item of the queue read at the start of the pass.\<close>

definition processOne ::
  "platform \<Rightarrow> Settings \<Rightarrow> Mapping \<Rightarrow> attempt \<Rightarrow> QueueItem \<Rightarrow> PassState \<Rightarrow> PassState" where
  "processOne P sett mp att item ps =
     (if skipForBackoff (checkedAt att) item then ps
      else (case processItem P att item sett mp (store ps) of
              (Inr True, st') \<Rightarrow> onSuccess P item mp (ps\<lparr>store := st'\<rparr>)
            | (Inr False, st') \<Rightarrow> onFailure att item ''Commit failed'' (ps\<lparr>store := st'\<rparr>)
            | (Inl msg, st') \<Rightarrow> onFailure att item msg (ps\<lparr>store := st'\<rparr>)))"

text \<open>
  The environment of one pass: what happens during the attempt on each item, given by the
  item's identifier; the error of \<^verbatim>\<open>syncProgressFiles\<close>, if any; the value of
  \<^verbatim>\<open>Date.now()\<close> recorded as the time of the last synchronisation.
\<close>

record PassEnv =
  attempts :: "string \<Rightarrow> attempt"
  progressError :: "string option"
  finishedAt :: int

fun processItems ::
  "platform \<Rightarrow> Settings \<Rightarrow> Mapping \<Rightarrow> PassEnv \<Rightarrow> QueueItem list \<Rightarrow> PassState \<Rightarrow> PassState" where
  "processItems P sett mp env [] ps = ps"
| "processItems P sett mp env (item # items) ps =
     processItems P sett mp env items (processOne P sett mp (attempts env (item_id item)) item ps)"

text \<open>\<^verbatim>\<open>syncProgressFiles\<close> catches every error; of its effects the model keeps the request to
  the remote and the log entry.\<close>

definition syncProgressFiles :: "PassEnv \<Rightarrow> Store \<Rightarrow> Store" where
  "syncProgressFiles env st =
     (let st1 = st\<lparr>remoteCalls := remoteCalls st @ [SyncProgress]\<rparr>
      in case progressError env of
           None \<Rightarrow> addLog success ''Progress files synced to GitHub'' None st1
         | Some msg \<Rightarrow> addLog error ''Failed to sync progress files'' (Some msg) st1)"

definition processQueue :: "platform \<Rightarrow> PassEnv \<Rightarrow> Store \<Rightarrow> Store" where
  "processQueue P env st =
     (if isProcessing st then addLog info ''Queue processing already in progress'' None st
      else let st1 = st\<lparr>isProcessing := True\<rparr>
           in if queue st1 = [] then st1\<lparr>isProcessing := False\<rparr>
              else if \<not> truthy (getToken st1) \<or> repoFullName (settings st1) = []
              then (addLog warn ''GitHub not configured, skipping queue processing'' None st1)
                     \<lparr>isProcessing := False\<rparr>
              else let st2 = addLog info
                               (''Processing '' @ showNat (length (queue st1)) @ '' queued items'')
                               None st1;
                       ps = processItems P (settings st1) (mapping st1) env (queue st1)
                              \<lparr>store = st2, processedCount = 0, errorCount = 0\<rparr>;
                       st3 = (if processedCount ps > 0
                              then addLog success
                                     (''Queue processed: '' @ showNat (processedCount ps)
                                      @ '' synced, '' @ showNat (errorCount ps) @ '' failed'')
                                     None
                                     (setLastSync (finishedAt env) (syncProgressFiles env (store ps)))
                              else store ps)
                   in st3\<lparr>isProcessing := False\<rparr>)"

text \<open>Passes run one after the other, each in its own environment.\<close>

fun runPasses :: "platform \<Rightarrow> PassEnv list \<Rightarrow> Store \<Rightarrow> Store" where
  "runPasses P [] st = st"
| "runPasses P (env # envs) st = runPasses P envs (processQueue P env st)"

subsection \<open>enqueueSubmission\<close>

text \<open>The values \<^verbatim>\<open>enqueueSubmission\<close> reads from the clock and the random generator: the time
  at the check against the solved set, the time stored in \<^verbatim>\<open>at\<close>, and the time and the random
  suffix of the new identifier.\<close>

record EnqueueEnv =
  solvedCheckAt :: int
  capturedAt :: int
  idTime :: int
  idRandom :: string

definition fingerprint :: "platform \<Rightarrow> string \<Rightarrow> string \<Rightarrow> string \<Rightarrow> string" where
  "fingerprint P slg lang cde = sha256 P (slg @ lang @ cde)"

definition newQueueItem ::
  "EnqueueEnv \<Rightarrow> Store \<Rightarrow> string \<Rightarrow> string \<Rightarrow> string \<Rightarrow> string \<Rightarrow> string option \<Rightarrow> string option
     \<Rightarrow> string option \<Rightarrow> (string option \<times> string option) option \<Rightarrow> Source \<Rightarrow> QueueItem" where
  "newQueueItem env st slg ttl cde lang cat lst diff mt src =
     (let entry = entries (mapping st) slg
      in \<lparr>item_id = showInt (idTime env) @ ''-'' @ idRandom env,
          slug = slg,
          title = (if ttl \<noteq> [] then ttl else slugToTitle slg),
          category = jsOr cat (Option.bind entry m_category),
          listName = jsOr lst (Option.bind entry m_listName),
          difficulty = jsOr diff (Option.bind entry m_difficulty),
          language = lang,
          code = cde,
          meta = mt,
          source = src,
          at = capturedAt env,
          retries = 0,
          lastAttempt = None\<rparr>)"

text \<open>
  The check against the solved set. The queue is read once, into a local array; the old entry
  is removed in the store by \<^verbatim>\<open>removeFromQueue\<close>, which reads the queue again; the new item
  is pushed on the local array, and that array is saved.
\<close>

definition enqueueSubmission ::
  "platform \<Rightarrow> EnqueueEnv \<Rightarrow> string \<Rightarrow> string \<Rightarrow> string \<Rightarrow> string \<Rightarrow> string option \<Rightarrow> string option
     \<Rightarrow> string option \<Rightarrow> (string option \<times> string option) option \<Rightarrow> Source \<Rightarrow> Store
     \<Rightarrow> bool \<times> Store" where
  "enqueueSubmission P env slg ttl cde lang cat lst diff mt src st =
     (let codeHash = fingerprint P slg lang cde;
          recentlySolved =
            (case solved st slg of
               None \<Rightarrow> False
             | Some existingSolved \<Rightarrow>
                 s_sha256 existingSolved = Some codeHash
                 \<and> solvedCheckAt env - solvedAt existingSolved < 60000)
      in if recentlySolved then (False, addLog info (''Duplicate submission ignored: '' @ ttl) None st)
         else let localQueue = queue st;
                  existingInQueue = find (\<lambda>item. slug item = slg \<and> language item = lang) localQueue;
                  alreadyQueued =
                    (case existingInQueue of
                       None \<Rightarrow> False
                     | Some e \<Rightarrow> fingerprint P (slug e) (language e) (code e) = codeHash)
              in if alreadyQueued then (False, addLog info (''Already queued: '' @ ttl) None st)
                 else let st1 = (case existingInQueue of
                                   None \<Rightarrow> st
                                 | Some e \<Rightarrow> removeFromQueue (item_id e) st);
                          newItem = newQueueItem env st slg ttl cde lang cat lst diff mt src;
                          st2 = st1\<lparr>queue := localQueue @ [newItem]\<rparr>;
                          st3 = addLog success (''Queued: '' @ ttl @ '' ('' @ lang @ '')'') None st2
                      in (True, st3\<lparr>scheduled := scheduled st3 + 1\<rparr>))"

section \<open>Notions used in the statements\<close>

text \<open>A string with none of the characters \<open>sanitize\<close> removes and no white space.\<close>

definition pathSafe :: "string \<Rightarrow> bool" where
  "pathSafe s = list_all (\<lambda>c. c \<notin> set invalidChars \<and> \<not> isSpace c) s"

text \<open>A string in which two underscores stand side by side.\<close>

fun adjacentUnderscores :: "string \<Rightarrow> bool" where
  "adjacentUnderscores (a # b # cs) = ((a = CHR ''_'' \<and> b = CHR ''_'') \<or> adjacentUnderscores (b # cs))"
| "adjacentUnderscores cs = False"

text \<open>The state in which a pass enters its loop: the flag set and the first log entry written.\<close>

definition loopStart :: "Store \<Rightarrow> PassState" where
  "loopStart st =
     \<lparr>store = addLog info (''Processing '' @ showNat (length (queue st)) @ '' queued items'') None
                (st\<lparr>isProcessing := True\<rparr>),
      processedCount = 0, errorCount = 0\<rparr>"

section \<open>Concrete inputs\<close>

text \<open>A platform on which the model can be run: the identity stands for the digest and the
  decimal rendering for \<^verbatim>\<open>toISOString\<close>.\<close>

definition examplePlatform :: platform where
  "examplePlatform = \<lparr>sha256 = (\<lambda>s. s), toISOString = showInt\<rparr>"

definition exampleStore :: Store where
  "exampleStore =
     \<lparr>settings = DEFAULT_SETTINGS\<lparr>repoFullName := ''user/solutions''\<rparr>,
      token = Some ''secret'',
      mapping = \<lparr>version = 1, updatedAt = 0, entries = Map.empty\<rparr>,
      solved = Map.empty,
      queue = [],
      lastSync = None,
      logs = [],
      isProcessing = False,
      remoteCalls = [],
      scheduled = 0\<rparr>"

definition exampleItem :: QueueItem where
  "exampleItem =
     \<lparr>item_id = ''1700000000000-k3j9x0a1b'', slug = ''two-sum'', title = ''Two Sum'',
      category = None, listName = None, difficulty = None, language = ''python'',
      code = ''def f():pass'', meta = None, source = dom, at = 1700000000000, retries = 0,
      lastAttempt = None\<rparr>"


text \<open>A pass at time \<open>t\<close> in which every write is rejected for a stale version token, and six
  such passes, 100 seconds apart.\<close>

definition rejectingAt :: "int \<Rightarrow> attempt" where
  "rejectingAt t =
     \<lparr>checkedAt = t, firstGet = GetOk ''3f2a'', secondGet = GetOk ''3f2a'',
      putFile = PutError ''GitHub API error 409: stale sha'', failedAt = t + 500\<rparr>"

definition failingPass :: "int \<Rightarrow> PassEnv" where
  "failingPass t = \<lparr>attempts = (\<lambda>i. rejectingAt t), progressError = None, finishedAt = t + 1000\<rparr>"

definition sixPasses :: "PassEnv list" where
  "sixPasses = map (\<lambda>k. failingPass (1700000100000 + 100000 * int k)) [0..<6]"

text \<open>The clock and the random suffix read by one call of \<open>enqueueSubmission\<close>.\<close>

definition exampleEnqueue :: EnqueueEnv where
  "exampleEnqueue =
     \<lparr>solvedCheckAt = 1700000200000, capturedAt = 1700000200001, idTime = 1700000200002,
      idRandom = ''q8w2e5r7t''\<rparr>"

text \<open>An entry of the solved set for a solution in C, solved ten seconds before
  \<open>exampleEnqueue\<close> reads the clock.\<close>

definition solvedInC :: SolvedEntry where
  "solvedInC =
     \<lparr>s_title = ''Two Sum'', s_category = None, s_listName = None, s_difficulty = None,
      s_language = ''c'', solvedAt = 1700000190000,
      s_sha256 = Some (fingerprint examplePlatform ''two-sum'' ''c'' ''pp_main(){}'')\<rparr>"

text \<open>The same solution in C as an item of the queue, and as an entry of the solved set two
  minutes before \<open>exampleEnqueue\<close> reads the clock.\<close>

definition queuedInC :: QueueItem where
  "queuedInC = exampleItem\<lparr>language := ''c'', code := ''pp_main(){}''\<rparr>"

definition solvedInCBefore :: SolvedEntry where
  "solvedInCBefore = solvedInC\<lparr>solvedAt := 1700000080000\<rparr>"

text \<open>An entry of the mapping, and an incoming entry for the same slug with another title, an
  empty category and no difficulty.\<close>

definition storedTwoSum :: MappingEntry where
  "storedTwoSum =
     \<lparr>m_title = Some ''Two Sum'', m_category = Some ''Arrays & Hashing'', m_listName = None,
      m_difficulty = Some ''Easy'', m_sources = Some [''https://neetcode.io/practice'']\<rparr>"

definition incomingTwoSum :: IncomingEntry where
  "incomingTwoSum =
     \<lparr>i_title = Some ''Two Integer Sum'', i_category = Some [], i_listName = Some ''NeetCode 150'',
      i_difficulty = None, sourceUrl = ''https://neetcode.io/roadmap''\<rparr>"

section \<open>Properties\<close>

subsection \<open>The example evaluated\<close>

lemma sanitize_Two_Sum: "sanitize ''Two Sum'' = ''Two_Sum''"
  by code_simp

lemma getExtension_python: "getExtension ''python'' = ''py''"
  by code_simp


subsection \<open>The retry schedule\<close>








subsection \<open>The pass that does nothing\<close>

text \<open>
  Claim C7, as amended. When the stored token is absent (or empty) or \<open>repoFullName\<close> is empty,
  a pass leaves the queue, the solved set and the time of the last synchronisation as they
  were, sends no request to the remote and schedules nothing, whatever the queue holds. It logs
  the warning when the configuration check is reached, that is when no pass is running and the
  queue is not empty; an empty queue ends the pass before the check, with no log entry.
\<close>

theorem processQueue_not_configured:
  assumes "getToken st = None \<or> repoFullName (settings st) = []"
  shows "queue (processQueue P env st) = queue st
         \<and> solved (processQueue P env st) = solved st
         \<and> lastSync (processQueue P env st) = lastSync st
         \<and> remoteCalls (processQueue P env st) = remoteCalls st
         \<and> scheduled (processQueue P env st) = scheduled st
         \<and> logs (processQueue P env st) =
             (if isProcessing st
              then take MAX_LOGS (\<lparr>level = info, message = ''Queue processing already in progress'',
                                    details = None\<rparr> # logs st)
              else if queue st = [] then logs st
              else take MAX_LOGS (\<lparr>level = warn,
                                    message = ''GitHub not configured, skipping queue processing'',
                                    details = None\<rparr> # logs st))"
proof -
  have "\<not> truthy (getToken st) \<or> repoFullName (settings st) = []"
    using assms by (auto simp: truthy_def)
  then have nc: "\<not> truthy (getToken (st\<lparr>isProcessing := True\<rparr>))
                  \<or> repoFullName (settings (st\<lparr>isProcessing := True\<rparr>)) = []"
    by (simp add: getToken_def)
  show ?thesis
    using nc by (auto simp: processQueue_def addLog_def Let_def)
qed

theorem processQueue_not_configured_witness:
  "(getToken (exampleStore\<lparr>token := None, queue := [exampleItem]\<rparr>) = None
      \<or> repoFullName (settings (exampleStore\<lparr>token := None, queue := [exampleItem]\<rparr>)) = [])
   \<and> queue (processQueue examplePlatform (failingPass 1700000100000) (exampleStore\<lparr>token := None, queue := [exampleItem]\<rparr>))
       = [exampleItem]
   \<and> remoteCalls (processQueue examplePlatform (failingPass 1700000100000)
         (exampleStore\<lparr>token := None, queue := [exampleItem]\<rparr>)) = []
   \<and> logs (processQueue examplePlatform (failingPass 1700000100000) (exampleStore\<lparr>token := None, queue := [exampleItem]\<rparr>))
       = [\<lparr>level = warn, message = ''GitHub not configured, skipping queue processing'',
           details = None\<rparr>]"
  using processQueue_not_configured
          [of "exampleStore\<lparr>token := None, queue := [exampleItem]\<rparr>" examplePlatform "failingPass 1700000100000"]
  by (simp add: exampleStore_def getToken_def truthy_def MAX_LOGS_def)

text \<open>With no token and an empty queue, the pass logs nothing.\<close>

theorem empty_queue_no_warning_counterexample:
  "getToken (exampleStore\<lparr>token := None\<rparr>) = None
   \<and> queue (exampleStore\<lparr>token := None\<rparr>) = []
   \<and> logs (processQueue examplePlatform (failingPass 1700000100000) (exampleStore\<lparr>token := None\<rparr>)) = []"
  by (simp add: processQueue_def Let_def exampleStore_def getToken_def truthy_def)

text \<open>
  Claim C8. When the flag \<open>isProcessing\<close> is set, \<open>processQueue\<close> returns the state it was given
  with one informational log entry added: the queue, the solved set, the time of the last
  synchronisation, the flag, the requests sent and the passes scheduled are all unchanged, and
  the result does not depend on what the queue holds.
\<close>

theorem processQueue_single_flight:
  assumes "isProcessing st"
  shows "processQueue P env st =
           st\<lparr>logs := take MAX_LOGS (\<lparr>level = info, message = ''Queue processing already in progress'',
                                       details = None\<rparr> # logs st)\<rparr>"
  using assms by (simp add: processQueue_def addLog_def)

theorem processQueue_single_flight_witness:
  "isProcessing (exampleStore\<lparr>queue := [exampleItem], isProcessing := True\<rparr>)
   \<and> processQueue examplePlatform (failingPass 1700000100000) (exampleStore\<lparr>queue := [exampleItem], isProcessing := True\<rparr>) =
       exampleStore\<lparr>queue := [exampleItem], isProcessing := True,
         logs := [\<lparr>level = info, message = ''Queue processing already in progress'', details = None\<rparr>]\<rparr>"
  using processQueue_single_flight
          [of "exampleStore\<lparr>queue := [exampleItem], isProcessing := True\<rparr>" examplePlatform "failingPass 1700000100000"]
  by (simp add: exampleStore_def MAX_LOGS_def)

subsection \<open>The path of a solution file\<close>

lemma slugToTitle_two_sum: "slugToTitle ''two-sum'' = ''Two Sum''"
  by code_simp

text \<open>The first letter of each word is put in upper case, a letter of Latin-1 too, and the rest
  of the word is left as it is.\<close>

lemma slugToTitle_words:
  "slugToTitle [CHR 0xE9, CHR ''t'', CHR ''u'', CHR ''d'', CHR ''e'', CHR ''-'', CHR ''n'', CHR ''o'', CHR ''-'',
                CHR ''2'', CHR ''B''] =
     [CHR 0xC9, CHR ''t'', CHR ''u'', CHR ''d'', CHR ''e'', CHR '' '', CHR ''N'', CHR ''o'', CHR '' '',
      CHR ''2'', CHR ''B'']"
  by code_simp

lemma getExtension_normalised: "getExtension '' Python3 '' = ''py''"
  by code_simp

lemma getExtension_Java: "getExtension ''Java'' = ''java''"
  by code_simp

lemma sanitize_lru_cache: "sanitize (slugToTitle ''lru-cache'') = ''Lru_Cache''"
  by code_simp

lemma getExtension_cobol: "getExtension ''cobol'' = ''txt''"
  by code_simp

lemma getExtension_constructor: "getExtension ''constructor'' = ''function Object() { [native code] }''"
  by code_simp

lemma getExtension_proto: "getExtension ''__proto__'' = ''[object Object]''"
  by code_simp

text \<open>
  Claim C6. In the mode FLAT the path is the base directory, \<open>/Problems/\<close> and the file name;
  the file name is the sanitized title (the title-cased slug when the title is empty), a dot and
  the extension of the language, with the slug and two underscores in front only when
  \<open>filenameIncludeSlug\<close> is set. For the slug \<open>two-sum\<close> and the language \<open>python\<close>, with the
  title \<open>Two Sum\<close> or with no title, the file is \<open>Two_Sum.py\<close> under \<open>/Problems/\<close>. The
  extension is the entry of the table for the language in lower case and trimmed, and \<open>txt\<close>
  for a language that neither the table nor the prototype of the table knows, \<open>cobol\<close> for one.
  The languages \<open>constructor\<close> and \<open>__proto__\<close> are not in the table either, and for them the
  fallback to \<open>txt\<close> is not taken: the extension is what the table inherits under that name,
  so that the solution in the language \<open>constructor\<close> goes to the file
  \<open>Two_Sum.function Object() { [native code] }\<close>. Where the title is empty, the statement is for
  slugs without the two letters whose capitals the model does not have.
\<close>

theorem buildFilePath_flat:
  assumes "organizationMode sett = FLAT"
  shows "(ttl \<noteq> [] \<or> \<not> list_ex capitalOutside slg \<longrightarrow>
            buildFilePath sett slg ttl lang mappingEntry diff =
              baseDir sett @ ''/Problems/''
              @ (if filenameIncludeSlug sett then slg @ ''__'' else [])
              @ sanitize (if ttl \<noteq> [] then ttl else slugToTitle slg) @ ''.'' @ getExtension lang)
         \<and> getExtension lang =
             (case map_of LANGUAGE_EXTENSIONS (trim (toLowerCase lang)) of
                Some e \<Rightarrow> e
              | None \<Rightarrow>
                  if trim (toLowerCase lang) = ''constructor''
                  then ''function Object() { [native code] }''
                  else if trim (toLowerCase lang) = ''__proto__'' then ''[object Object]''
                  else ''txt'')
         \<and> slugToTitle ''two-sum'' = ''Two Sum''
         \<and> buildFilePath sett ''two-sum'' ''Two Sum'' ''python'' mappingEntry diff =
             baseDir sett @ ''/Problems/'' @ (if filenameIncludeSlug sett then ''two-sum__'' else [])
             @ ''Two_Sum.py''
         \<and> buildFilePath sett ''two-sum'' [] ''python'' mappingEntry diff =
             baseDir sett @ ''/Problems/'' @ (if filenameIncludeSlug sett then ''two-sum__'' else [])
             @ ''Two_Sum.py''
         \<and> buildFilePath sett ''two-sum'' ''Two Sum'' ''cobol'' mappingEntry diff =
             baseDir sett @ ''/Problems/'' @ (if filenameIncludeSlug sett then ''two-sum__'' else [])
             @ ''Two_Sum.txt''
         \<and> buildFilePath sett ''two-sum'' ''Two Sum'' ''constructor'' mappingEntry diff =
             baseDir sett @ ''/Problems/'' @ (if filenameIncludeSlug sett then ''two-sum__'' else [])
             @ ''Two_Sum.function Object() { [native code] }''"
proof -
  have path: "buildFilePath sett s t l mappingEntry diff =
                baseDir sett @ ''/Problems/''
                @ (if filenameIncludeSlug sett then s @ ''__'' else [])
                @ sanitize (if t \<noteq> [] then t else slugToTitle s) @ ''.'' @ getExtension l" for s t l
    using assms by (simp add: buildFilePath_def folders_def buildFilename_def Let_def)
  have ext: "getExtension lang =
             (case map_of LANGUAGE_EXTENSIONS (trim (toLowerCase lang)) of
                Some e \<Rightarrow> e
              | None \<Rightarrow>
                  if trim (toLowerCase lang) = ''constructor''
                  then ''function Object() { [native code] }''
                  else if trim (toLowerCase lang) = ''__proto__'' then ''[object Object]''
                  else ''txt'')"
    by (simp add: getExtension_def inheritedProperty_def Let_def split: option.splits)
  have py: "buildFilePath sett ''two-sum'' ''Two Sum'' ''python'' mappingEntry diff =
             baseDir sett @ ''/Problems/'' @ (if filenameIncludeSlug sett then ''two-sum__'' else [])
             @ ''Two_Sum.py''"
    by (simp add: path sanitize_Two_Sum getExtension_python)
  have untitled: "buildFilePath sett ''two-sum'' [] ''python'' mappingEntry diff =
             baseDir sett @ ''/Problems/'' @ (if filenameIncludeSlug sett then ''two-sum__'' else [])
             @ ''Two_Sum.py''"
    by (simp add: path slugToTitle_two_sum sanitize_Two_Sum getExtension_python)
  have cobol: "buildFilePath sett ''two-sum'' ''Two Sum'' ''cobol'' mappingEntry diff =
             baseDir sett @ ''/Problems/'' @ (if filenameIncludeSlug sett then ''two-sum__'' else [])
             @ ''Two_Sum.txt''"
    by (simp add: path sanitize_Two_Sum getExtension_cobol)
  have inherited: "buildFilePath sett ''two-sum'' ''Two Sum'' ''constructor'' mappingEntry diff =
             baseDir sett @ ''/Problems/'' @ (if filenameIncludeSlug sett then ''two-sum__'' else [])
             @ ''Two_Sum.function Object() { [native code] }''"
    by (simp add: path sanitize_Two_Sum getExtension_constructor)
  show ?thesis
    using path [of slg ttl lang] ext slugToTitle_two_sum py untitled cobol inherited by blast
qed

text \<open>With the default settings in the mode FLAT: the path of the example, and the path of the
  same solution when the language is \<open>constructor\<close>.\<close>

theorem buildFilePath_flat_witness:
  "organizationMode (DEFAULT_SETTINGS\<lparr>organizationMode := FLAT\<rparr>) = FLAT
   \<and> buildFilePath (DEFAULT_SETTINGS\<lparr>organizationMode := FLAT\<rparr>) ''two-sum'' ''Two Sum'' ''python''
        None None = ''NeetSync/Problems/Two_Sum.py''
   \<and> buildFilePath (DEFAULT_SETTINGS\<lparr>organizationMode := FLAT\<rparr>) ''two-sum'' [] ''python''
        None None = ''NeetSync/Problems/Two_Sum.py''
   \<and> \<not> list_ex capitalOutside ''lru-cache''
   \<and> buildFilePath (DEFAULT_SETTINGS\<lparr>organizationMode := FLAT\<rparr>) ''lru-cache'' [] ''Java''
        None None = ''NeetSync/Problems/Lru_Cache.java''
   \<and> buildFilePath (DEFAULT_SETTINGS\<lparr>organizationMode := FLAT\<rparr>) ''two-sum'' ''Two Sum'' ''cobol''
        None None = ''NeetSync/Problems/Two_Sum.txt''
   \<and> buildFilePath (DEFAULT_SETTINGS\<lparr>organizationMode := FLAT\<rparr>) ''two-sum'' ''Two Sum''
        ''constructor'' None None = ''NeetSync/Problems/Two_Sum.function Object() { [native code] }''
   \<and> ''NeetSync/Problems/Two_Sum.function Object() { [native code] }''
        \<noteq> ''NeetSync/Problems/Two_Sum.txt''"
proof -
  let ?sett = "DEFAULT_SETTINGS\<lparr>organizationMode := FLAT\<rparr>"
  have flat: "organizationMode ?sett = FLAT"
    by simp
  have plain: "\<not> filenameIncludeSlug ?sett" and base: "baseDir ?sett = ''NeetSync''"
    by (simp_all add: DEFAULT_SETTINGS_def)
  note inst = buildFilePath_flat [OF flat, where ttl = "''Two Sum''" and slg = "''two-sum''"
                 and lang = "''python''" and mappingEntry = None and diff = None]
  from inst have "buildFilePath ?sett ''two-sum'' ''Two Sum'' ''python'' None None =
                    baseDir ?sett @ ''/Problems/''
                    @ (if filenameIncludeSlug ?sett then ''two-sum__'' else []) @ ''Two_Sum.py''"
    by blast
  then have py: "buildFilePath ?sett ''two-sum'' ''Two Sum'' ''python'' None None
                  = ''NeetSync/Problems/Two_Sum.py''"
    using plain base by simp
  from inst have "buildFilePath ?sett ''two-sum'' [] ''python'' None None =
                    baseDir ?sett @ ''/Problems/''
                    @ (if filenameIncludeSlug ?sett then ''two-sum__'' else []) @ ''Two_Sum.py''"
    by blast
  then have untitled: "buildFilePath ?sett ''two-sum'' [] ''python'' None None
                  = ''NeetSync/Problems/Two_Sum.py''"
    using plain base by simp
  from inst have "buildFilePath ?sett ''two-sum'' ''Two Sum'' ''cobol'' None None =
                    baseDir ?sett @ ''/Problems/''
                    @ (if filenameIncludeSlug ?sett then ''two-sum__'' else []) @ ''Two_Sum.txt''"
    by blast
  then have cobol: "buildFilePath ?sett ''two-sum'' ''Two Sum'' ''cobol'' None None
                  = ''NeetSync/Problems/Two_Sum.txt''"
    using plain base by simp
  from inst have "buildFilePath ?sett ''two-sum'' ''Two Sum'' ''constructor'' None None =
                    baseDir ?sett @ ''/Problems/''
                    @ (if filenameIncludeSlug ?sett then ''two-sum__'' else []) @ ''Two_Sum.function Object() { [native code] }''"
    by blast
  then have inherited: "buildFilePath ?sett ''two-sum'' ''Two Sum'' ''constructor'' None None
                  = ''NeetSync/Problems/Two_Sum.function Object() { [native code] }''"
    using plain base by simp
  have latin: "\<not> list_ex capitalOutside ''lru-cache''"
    by (simp add: capitalOutside_def)
  note other = buildFilePath_flat [OF flat, where ttl = "[]" and slg = "''lru-cache''"
                 and lang = "''Java''" and mappingEntry = None and diff = None]
  from other latin have "buildFilePath ?sett ''lru-cache'' [] ''Java'' None None =
                    baseDir ?sett @ ''/Problems/''
                    @ (if filenameIncludeSlug ?sett then ''lru-cache'' @ ''__'' else [])
                    @ sanitize (if [] \<noteq> ([]::string) then [] else slugToTitle ''lru-cache'') @ ''.''
                    @ getExtension ''Java''"
    by blast
  then have lru: "buildFilePath ?sett ''lru-cache'' [] ''Java'' None None
                  = ''NeetSync/Problems/Lru_Cache.java''"
    using plain base by (simp add: sanitize_lru_cache getExtension_Java)
  from flat py untitled latin lru cobol inherited show ?thesis
    by (intro conjI) simp_all
qed

subsection \<open>The fingerprint\<close>

text \<open>When a submission is accepted: no entry of the solved set for its slug has its
  fingerprint and is younger than 60 seconds, and the first queued item of its slug and
  language, if there is one, has another fingerprint.\<close>

lemma enqueue_accepts_iff:
  "fst (enqueueSubmission P env slg ttl cde lang cat lst diff mt src st) =
     (\<not> (\<exists>e. solved st slg = Some e \<and> s_sha256 e = Some (fingerprint P slg lang cde)
               \<and> solvedCheckAt env - solvedAt e < 60000)
      \<and> \<not> (\<exists>i. find (\<lambda>item. slug item = slg \<and> language item = lang) (queue st) = Some i
               \<and> fingerprint P (slug i) (language i) (code i) = fingerprint P slg lang cde))"
  by (auto simp: enqueueSubmission_def Let_def split: option.splits)

lemma find_same_pair:
  "find (\<lambda>item. slug item = slg \<and> language item = lang) q = Some i \<Longrightarrow> slug i = slg \<and> language i = lang"
  by (auto simp: find_Some_iff)

lemma find_no_pair:
  "\<forall>i \<in> set q. slug i = slg \<longrightarrow> language i \<noteq> lang \<Longrightarrow>
     find (\<lambda>item. slug item = slg \<and> language item = lang) q = None"
  by (auto simp: find_None_iff)

text \<open>
  Claim C9, as amended. The fingerprint is the digest of the concatenation of slug, language and
  code, with no separator. The concatenation does not determine the triple: two different
  triples can have the same concatenation, and then they have the same fingerprint, whatever the
  digest. Both duplicate checks are keyed on the slug, so a submission is rejected as a
  duplicate of a different one with the same concatenation only when the two have the same slug
  and the other one is in the solved set, solved less than 60 seconds before. The queued item
  that is compared has the slug and the language of the submission, so that equal
  concatenations there mean equal code. A submission is accepted whenever the solved set has no
  entry for its slug, or one 60 seconds old or older, and no queued item has its slug and
  language, whatever fingerprints are stored under other slugs and languages.
\<close>

theorem fingerprint_not_injective:
  "fingerprint P slg lang cde = sha256 P (slg @ lang @ cde)
   \<and> (\<exists>s l c s' l' c'. (s, l, c) \<noteq> (s', l', c') \<and> s @ l @ c = s' @ l' @ (c'::string))
   \<and> (slg @ lang @ cde = slg' @ lang' @ cde'
        \<longrightarrow> fingerprint P slg lang cde = fingerprint P slg' lang' cde')
   \<and> fst (enqueueSubmission P env slg ttl cde lang cat lst diff mt src st) =
       (\<not> (\<exists>e. solved st slg = Some e \<and> s_sha256 e = Some (fingerprint P slg lang cde)
                 \<and> solvedCheckAt env - solvedAt e < 60000)
        \<and> \<not> (\<exists>i. find (\<lambda>item. slug item = slg \<and> language item = lang) (queue st) = Some i
                 \<and> fingerprint P (slug i) (language i) (code i) = fingerprint P slg lang cde))
   \<and> (solved st slg = Some e \<and> s_sha256 e = Some (fingerprint P slg lang' cde')
        \<and> lang @ cde = lang' @ cde' \<and> solvedCheckAt env - solvedAt e < 60000
        \<longrightarrow> \<not> fst (enqueueSubmission P env slg ttl cde lang cat lst diff mt src st))
   \<and> (find (\<lambda>item. slug item = slg \<and> language item = lang) (queue st) = Some i
        \<and> slug i @ language i @ code i = slg @ lang @ cde
        \<longrightarrow> (slug i, language i, code i) = (slg, lang, cde))
   \<and> ((solved st slg = None \<or> (\<exists>e. solved st slg = Some e \<and> 60000 \<le> solvedCheckAt env - solvedAt e))
        \<and> (\<forall>i \<in> set (queue st). slug i = slg \<longrightarrow> language i \<noteq> lang)
        \<longrightarrow> fst (enqueueSubmission P env slg ttl cde lang cat lst diff mt src st))"
proof -
  have ex: "\<exists>s l c s' l' c'. (s, l, c) \<noteq> (s', l', c') \<and> s @ l @ c = s' @ l' @ (c'::string)"
  proof -
    have "(''ab'', ''c'', ''d'') \<noteq> (''a'', ''bc'', ''d'') \<and> ''ab'' @ ''c'' @ ''d'' = ''a'' @ ''bc'' @ ''d''"
      by simp
    then show ?thesis by blast
  qed
  have same: "slg @ lang @ cde = slg' @ lang' @ cde'
        \<longrightarrow> fingerprint P slg lang cde = fingerprint P slg' lang' cde'"
    by (simp add: fingerprint_def)
  note iff = enqueue_accepts_iff [of P env slg ttl cde lang cat lst diff mt src st]
  have dup: "solved st slg = Some e \<and> s_sha256 e = Some (fingerprint P slg lang' cde')
        \<and> lang @ cde = lang' @ cde' \<and> solvedCheckAt env - solvedAt e < 60000
        \<longrightarrow> \<not> fst (enqueueSubmission P env slg ttl cde lang cat lst diff mt src st)"
    by (simp add: enqueueSubmission_def fingerprint_def Let_def)
  have queued: "find (\<lambda>item. slug item = slg \<and> language item = lang) (queue st) = Some i
        \<and> slug i @ language i @ code i = slg @ lang @ cde
        \<longrightarrow> (slug i, language i, code i) = (slg, lang, cde)"
    using find_same_pair [of slg lang "queue st" i] by auto
  have acc: "(solved st slg = None \<or> (\<exists>e. solved st slg = Some e \<and> 60000 \<le> solvedCheckAt env - solvedAt e))
        \<and> (\<forall>i \<in> set (queue st). slug i = slg \<longrightarrow> language i \<noteq> lang)
        \<longrightarrow> fst (enqueueSubmission P env slg ttl cde lang cat lst diff mt src st)"
  proof (intro impI, elim conjE)
    assume s: "solved st slg = None \<or> (\<exists>e. solved st slg = Some e \<and> 60000 \<le> solvedCheckAt env - solvedAt e)"
      and q: "\<forall>i \<in> set (queue st). slug i = slg \<longrightarrow> language i \<noteq> lang"
    have "find (\<lambda>item. slug item = slg \<and> language item = lang) (queue st) = None"
      using q by (rule find_no_pair)
    moreover have "\<not> (\<exists>e. solved st slg = Some e \<and> s_sha256 e = Some (fingerprint P slg lang cde)
               \<and> solvedCheckAt env - solvedAt e < 60000)"
      using s by auto
    ultimately show "fst (enqueueSubmission P env slg ttl cde lang cat lst diff mt src st)"
      using iff by simp
  qed
  have fp: "fingerprint P slg lang cde = sha256 P (slg @ lang @ cde)"
    by (simp add: fingerprint_def)
  from fp ex same iff dup queued acc show ?thesis
    by (intro conjI)
qed


theorem fingerprint_not_injective_witness:
  "''two-sum'' @ ''cpp'' @ ''_main(){}'' = ''two-sum'' @ ''c'' @ ''pp_main(){}''
   \<and> (''two-sum'', ''cpp'', ''_main(){}'') \<noteq> (''two-sum'', ''c'', ''pp_main(){}'')
   \<and> fingerprint examplePlatform ''two-sum'' ''cpp'' ''_main(){}'' =
       fingerprint examplePlatform ''two-sum'' ''c'' ''pp_main(){}''
   \<and> \<not> fst (enqueueSubmission examplePlatform exampleEnqueue ''two-sum'' ''Two Sum'' ''_main(){}'' ''cpp''
            None None None None dom (exampleStore\<lparr>solved := [''two-sum'' \<mapsto> solvedInC]\<rparr>))
   \<and> fst (enqueueSubmission examplePlatform exampleEnqueue ''two-sum'' ''Two Sum'' ''_main(){}'' ''cpp''
            None None None None dom
            (exampleStore\<lparr>solved := [''two-sum'' \<mapsto> solvedInCBefore], queue := [queuedInC]\<rparr>))
   \<and> find (\<lambda>item. slug item = ''two-sum'' \<and> language item = ''c'')
        (queue (exampleStore\<lparr>solved := [''two-sum'' \<mapsto> solvedInCBefore], queue := [queuedInC]\<rparr>))
       = Some queuedInC
   \<and> (slug queuedInC, language queuedInC, code queuedInC) = (''two-sum'', ''c'', ''pp_main(){}'')"
proof -
  let ?fresh = "exampleStore\<lparr>solved := [''two-sum'' \<mapsto> solvedInC]\<rparr>"
  let ?stale = "exampleStore\<lparr>solved := [''two-sum'' \<mapsto> solvedInCBefore], queue := [queuedInC]\<rparr>"
  have same: "''two-sum'' @ ''cpp'' @ ''_main(){}'' = ''two-sum'' @ ''c'' @ ''pp_main(){}''"
    by simp
  have other: "(''two-sum'', ''cpp'', ''_main(){}'') \<noteq> (''two-sum'', ''c'', ''pp_main(){}'')"
    by simp
  have fresh: "solved ?fresh ''two-sum'' = Some solvedInC
        \<and> s_sha256 solvedInC = Some (fingerprint examplePlatform ''two-sum'' ''c'' ''pp_main(){}'')
        \<and> ''cpp'' @ ''_main(){}'' = ''c'' @ ''pp_main(){}''
        \<and> solvedCheckAt exampleEnqueue - solvedAt solvedInC < 60000"
    by (simp add: solvedInC_def exampleEnqueue_def)
  note rejected = fingerprint_not_injective
          [where P = examplePlatform and slg = "''two-sum''" and lang = "''cpp''"
             and cde = "''_main(){}''" and slg' = "''two-sum''" and lang' = "''c''"
             and cde' = "''pp_main(){}''" and st = ?fresh and e = solvedInC and env = exampleEnqueue
             and ttl = "''Two Sum''" and cat = None and lst = None and diff = None and mt = None
             and src = dom and i = queuedInC]
  from rejected same have fp: "fingerprint examplePlatform ''two-sum'' ''cpp'' ''_main(){}'' =
       fingerprint examplePlatform ''two-sum'' ''c'' ''pp_main(){}''"
    by blast
  from rejected fresh have rej: "\<not> fst (enqueueSubmission examplePlatform exampleEnqueue ''two-sum''
            ''Two Sum'' ''_main(){}'' ''cpp'' None None None None dom ?fresh)"
    by blast
  have stale: "(solved ?stale ''two-sum'' = None
                 \<or> (\<exists>e. solved ?stale ''two-sum'' = Some e
                         \<and> 60000 \<le> solvedCheckAt exampleEnqueue - solvedAt e))
               \<and> (\<forall>i \<in> set (queue ?stale). slug i = ''two-sum'' \<longrightarrow> language i \<noteq> ''cpp'')"
    by (simp add: solvedInCBefore_def solvedInC_def exampleEnqueue_def queuedInC_def exampleItem_def)
  note accepted = fingerprint_not_injective
          [where P = examplePlatform and slg = "''two-sum''" and lang = "''cpp''"
             and cde = "''_main(){}''" and slg' = "''two-sum''" and lang' = "''c''"
             and cde' = "''pp_main(){}''" and st = ?stale and e = solvedInCBefore
             and env = exampleEnqueue and ttl = "''Two Sum''" and cat = None and lst = None
             and diff = None and mt = None and src = dom and i = queuedInC]
  from accepted stale have acc: "fst (enqueueSubmission examplePlatform exampleEnqueue ''two-sum''
            ''Two Sum'' ''_main(){}'' ''cpp'' None None None None dom ?stale)"
    by blast
  have found: "find (\<lambda>item. slug item = ''two-sum'' \<and> language item = ''c'') (queue ?stale)
                 = Some queuedInC"
    by (simp add: queuedInC_def exampleItem_def)
  have concat: "slug queuedInC @ language queuedInC @ code queuedInC
                  = ''two-sum'' @ ''c'' @ ''pp_main(){}''"
    by (simp add: queuedInC_def exampleItem_def)
  note queued = fingerprint_not_injective
          [where P = examplePlatform and slg = "''two-sum''" and lang = "''c''"
             and cde = "''pp_main(){}''" and slg' = "''two-sum''" and lang' = "''c''"
             and cde' = "''pp_main(){}''" and st = ?stale and e = solvedInCBefore
             and env = exampleEnqueue and ttl = "''Two Sum''" and cat = None and lst = None
             and diff = None and mt = None and src = dom and i = queuedInC]
  from queued found concat
  have triple: "(slug queuedInC, language queuedInC, code queuedInC) = (''two-sum'', ''c'', ''pp_main(){}'')"
    by blast
  from same other fp rej acc found triple show ?thesis
    by (intro conjI)
qed

text \<open>A submission in C++ whose slug, language and code concatenate to those of the queued
  solution in C is accepted, and both are queued.\<close>

theorem collision_accepted_counterexample:
  "(''two-sum'', ''cpp'', ''_main(){}'') \<noteq> (slug queuedInC, language queuedInC, code queuedInC)
   \<and> ''two-sum'' @ ''cpp'' @ ''_main(){}'' = slug queuedInC @ language queuedInC @ code queuedInC
   \<and> fingerprint examplePlatform ''two-sum'' ''cpp'' ''_main(){}'' =
       fingerprint examplePlatform (slug queuedInC) (language queuedInC) (code queuedInC)
   \<and> fst (enqueueSubmission examplePlatform exampleEnqueue ''two-sum'' ''Two Sum'' ''_main(){}'' ''cpp''
            None None None None dom (exampleStore\<lparr>queue := [queuedInC]\<rparr>))
   \<and> map (\<lambda>i. (slug i, language i, code i))
        (queue (snd (enqueueSubmission examplePlatform exampleEnqueue ''two-sum'' ''Two Sum''
                       ''_main(){}'' ''cpp'' None None None None dom
                       (exampleStore\<lparr>queue := [queuedInC]\<rparr>))))
       = [(''two-sum'', ''c'', ''pp_main(){}''), (''two-sum'', ''cpp'', ''_main(){}'')]"
  by (simp add: enqueueSubmission_def newQueueItem_def addLog_def Let_def exampleStore_def
        queuedInC_def exampleItem_def fingerprint_def examplePlatform_def)

subsection \<open>Sanitized names\<close>

lemma underscore_safe: "CHR ''_'' \<notin> set invalidChars \<and> \<not> isSpace CHR ''_''"
  by (simp add: invalidChars_def isSpace_def)

lemma set_replaceSpaces: "set (replaceSpaces s) \<subseteq> {c \<in> set s. \<not> isSpace c} \<union> {CHR ''_''}"
proof (induction s rule: replaceSpaces.induct)
  case 1
  show ?case by simp
next
  case (2 c cs)
  show ?case
  proof (cases "isSpace c")
    case True
    have "set (dropWhile isSpace cs) \<subseteq> set cs"
      by (auto dest: set_dropWhileD)
    with 2(1) [OF True] True show ?thesis by auto
  next
    case False
    with 2(2) [OF False] show ?thesis by auto
  qed
qed

lemma set_collapseUnderscores: "set (collapseUnderscores s) \<subseteq> set s"
proof (induction s rule: collapseUnderscores.induct)
  case 1
  show ?case by simp
next
  case (2 c cs)
  show ?case
  proof (cases "c = CHR ''_''")
    case True
    have "set (dropWhile (\<lambda>x. x = CHR ''_'') cs) \<subseteq> set cs"
      by (auto dest: set_dropWhileD)
    with 2(1) [OF True] True show ?thesis by auto
  next
    case False
    with 2(2) [OF False] show ?thesis by auto
  qed
qed

lemma set_trimUnderscores: "set (trimUnderscores s) \<subseteq> set s"
proof -
  have lead: "set (dropLeadingUnderscore s) \<subseteq> set s"
    by (auto simp: dropLeadingUnderscore_def split: list.splits if_splits)
  have trail: "set (dropTrailingUnderscore t) \<subseteq> set t" for t
    by (auto simp: dropTrailingUnderscore_def dest: in_set_butlastD)
  show ?thesis
    unfolding trimUnderscores_def using lead trail by blast
qed

lemma pathSafe_sanitize: "pathSafe (sanitize s)"
proof -
  have "set (sanitize s) \<subseteq> set (replaceSpaces (removeInvalid s))"
    unfolding sanitize_def
    using set_take_subset set_trimUnderscores set_collapseUnderscores by fast
  also have "\<dots> \<subseteq> {c \<in> set (removeInvalid s). \<not> isSpace c} \<union> {CHR ''_''}"
    by (rule set_replaceSpaces)
  finally have "\<forall>c \<in> set (sanitize s). c \<notin> set invalidChars \<and> \<not> isSpace c"
    using underscore_safe by (auto simp: removeInvalid_def)
  then show ?thesis
    by (simp add: pathSafe_def list_all_iff)
qed

lemma adjacent_Cons_other: "a \<noteq> CHR ''_'' \<Longrightarrow> adjacentUnderscores (a # xs) = adjacentUnderscores xs"
  by (cases xs) auto

lemma adjacent_Cons_underscore:
  "adjacentUnderscores (CHR ''_'' # xs) = ((xs \<noteq> [] \<and> hd xs = CHR ''_'') \<or> adjacentUnderscores xs)"
  by (cases xs) auto

lemma collapse_head: "s = [] \<or> hd s \<noteq> CHR ''_'' \<Longrightarrow>
    collapseUnderscores s = [] \<or> hd (collapseUnderscores s) \<noteq> CHR ''_''"
  by (cases s) auto

lemma dropWhile_head: "dropWhile P xs = [] \<or> \<not> P (hd (dropWhile P xs))"
  using hd_dropWhile by blast

lemma no_adjacent_collapse: "\<not> adjacentUnderscores (collapseUnderscores s)"
proof (induction s rule: collapseUnderscores.induct)
  case 1
  show ?case by simp
next
  case (2 c cs)
  show ?case
  proof (cases "c = CHR ''_''")
    case True
    let ?d = "dropWhile (\<lambda>x. x = CHR ''_'') cs"
    have "?d = [] \<or> hd ?d \<noteq> CHR ''_''"
      using dropWhile_head [of "\<lambda>x. x = CHR ''_''" cs] by simp
    then have "collapseUnderscores ?d = [] \<or> hd (collapseUnderscores ?d) \<noteq> CHR ''_''"
      by (rule collapse_head)
    with 2(1) [OF True] True show ?thesis
      by (auto simp: adjacent_Cons_underscore)
  next
    case False
    with 2(2) [OF False] show ?thesis
      by (simp add: adjacent_Cons_other)
  qed
qed

lemma adjacent_tl: "\<not> adjacentUnderscores (c # cs) \<Longrightarrow> \<not> adjacentUnderscores cs"
  by (cases cs) auto

lemma adjacent_butlast: "\<not> adjacentUnderscores s \<Longrightarrow> \<not> adjacentUnderscores (butlast s)"
  by (induction s rule: adjacentUnderscores.induct) (auto split: if_splits)

lemma adjacent_take: "\<not> adjacentUnderscores s \<Longrightarrow> \<not> adjacentUnderscores (take n s)"
proof (induction s arbitrary: n rule: adjacentUnderscores.induct)
  case (1 a b cs)
  show ?case
  proof (cases n)
    case 0
    then show ?thesis by simp
  next
    case (Suc m)
    show ?thesis
    proof (cases m)
      case 0
      with Suc show ?thesis by simp
    next
      case (Suc k)
      with 1 \<open>n = Suc m\<close> show ?thesis
        using "1.IH" [of m] by auto
    qed
  qed
qed (simp_all add: take_Cons')

lemma adjacent_trim: "\<not> adjacentUnderscores s \<Longrightarrow> \<not> adjacentUnderscores (trimUnderscores s)"
proof -
  assume a: "\<not> adjacentUnderscores s"
  have "\<not> adjacentUnderscores (dropLeadingUnderscore s)"
    using a by (auto simp: dropLeadingUnderscore_def split: list.splits dest: adjacent_tl)
  then show ?thesis
    by (simp add: trimUnderscores_def dropTrailingUnderscore_def adjacent_butlast)
qed

lemma adjacent_infix: "adjacentUnderscores (u @ ''__'' @ v)"
proof (induction u)
  case Nil
  show ?case by simp
next
  case (Cons a u)
  then show ?case by (cases "u @ ''__'' @ v") auto
qed

lemma no_double_underscore_sanitize: "\<not> (\<exists>u v. sanitize s = u @ ''__'' @ v)"
proof
  assume "\<exists>u v. sanitize s = u @ ''__'' @ v"
  then have "adjacentUnderscores (sanitize s)"
    using adjacent_infix by auto
  moreover have "\<not> adjacentUnderscores (sanitize s)"
    unfolding sanitize_def
    by (intro adjacent_take adjacent_trim no_adjacent_collapse)
  ultimately show False by simp
qed

text \<open>The extension of a language whose normalised name is none of the inherited names.\<close>

lemma getExtension_safe:
  assumes "inheritedProperty (trim (toLowerCase lang)) = None"
  shows "pathSafe (getExtension lang) \<and> length (getExtension lang) \<le> 5"
proof (cases "map_of LANGUAGE_EXTENSIONS (trim (toLowerCase lang))")
  case None
  then show ?thesis
    using assms by (simp add: getExtension_def pathSafe_def invalidChars_def isSpace_def)
next
  case (Some e)
  then have "(trim (toLowerCase lang), e) \<in> set LANGUAGE_EXTENSIONS"
    by (rule map_of_SomeD)
  then have "e \<in> snd ` set LANGUAGE_EXTENSIONS"
    by force
  then have "pathSafe e \<and> length e \<le> 5"
    unfolding LANGUAGE_EXTENSIONS_def
    by (auto simp: pathSafe_def invalidChars_def isSpace_def)
  with Some show ?thesis
    by (simp add: getExtension_def)
qed

lemma pathSafe_append: "pathSafe (a @ b) = (pathSafe a \<and> pathSafe b)"
  by (simp add: pathSafe_def)

lemma length_sanitize: "length (sanitize s) \<le> 100"
  by (simp add: sanitize_def)

lemma normalizeDifficulty_cases:
  "normalizeDifficulty d \<in> {None, Some ''Easy'', Some ''Medium'', Some ''Hard''}"
  by (simp add: normalizeDifficulty_def Let_def split: option.splits)

lemma folders_safe:
  assumes "seg \<in> set (folders sett cat lst (normalizeDifficulty d))"
  shows "length seg \<le> 100 \<and> pathSafe seg"
proof -
  have fixed: "pathSafe ''Problems'' \<and> pathSafe ''Unsorted'' \<and> pathSafe ''Unknown_Difficulty''
               \<and> pathSafe ''Easy'' \<and> pathSafe ''Medium'' \<and> pathSafe ''Hard''"
    by (simp add: pathSafe_def invalidChars_def isSpace_def)
  have norm: "length (normalizeCategory x) \<le> 100 \<and> pathSafe (normalizeCategory x)
              \<and> length (normalizeListName x) \<le> 100 \<and> pathSafe (normalizeListName x)" for x
    by (simp add: normalizeCategory_def normalizeListName_def length_sanitize pathSafe_sanitize)
  from normalizeDifficulty_cases [of d] consider
      "normalizeDifficulty d = None" | "normalizeDifficulty d = Some ''Easy''"
    | "normalizeDifficulty d = Some ''Medium''" | "normalizeDifficulty d = Some ''Hard''"
    by auto
  then show ?thesis
    using assms fixed norm
    by cases (auto simp: folders_def truthy_def split: OrganizationMode.splits if_splits)
qed

text \<open>
  Claim C10, as amended. For every input, \<open>sanitize\<close> returns at most 100 characters, none of
  them white space or one of \<open>< > : " / \ | ? *\<close>, with no two underscores side by side. So
  every folder \<open>buildFilePath\<close> puts between the base directory and the file name is at most 100
  characters long and free of those characters, and the file name, for a language whose name in
  lower case and trimmed is neither \<open>constructor\<close> nor \<open>__proto__\<close>, is a stem of at most 106
  such characters, the sanitized title, a dot and the extension, behind the slug and two
  underscores when \<open>filenameIncludeSlug\<close> is set. The slug of that prefix is not sanitized.
\<close>

theorem sanitize_safe:
  "length (sanitize s) \<le> 100
   \<and> pathSafe (sanitize s)
   \<and> \<not> (\<exists>u v. sanitize s = u @ ''__'' @ v)
   \<and> (\<forall>seg \<in> set (folders sett cat lst (normalizeDifficulty d)). length seg \<le> 100 \<and> pathSafe seg)
   \<and> (trim (toLowerCase lang) \<noteq> ''constructor'' \<and> trim (toLowerCase lang) \<noteq> ''__proto__'' \<longrightarrow>
        (\<exists>stem. buildFilename sett slg ttl lang =
                  (if filenameIncludeSlug sett then slg @ ''__'' else []) @ stem
                \<and> stem = sanitize (if ttl \<noteq> [] then ttl else slugToTitle slg) @ ''.'' @ getExtension lang
                \<and> length stem \<le> 106 \<and> pathSafe stem))"
proof -
  let ?stem = "sanitize (if ttl \<noteq> [] then ttl else slugToTitle slg) @ ''.'' @ getExtension lang"
  have dot: "pathSafe ''.''"
    by (simp add: pathSafe_def invalidChars_def isSpace_def)
  have fname: "\<exists>stem. buildFilename sett slg ttl lang =
                  (if filenameIncludeSlug sett then slg @ ''__'' else []) @ stem
                \<and> stem = sanitize (if ttl \<noteq> [] then ttl else slugToTitle slg) @ ''.'' @ getExtension lang
                \<and> length stem \<le> 106 \<and> pathSafe stem"
    if known: "trim (toLowerCase lang) \<noteq> ''constructor'' \<and> trim (toLowerCase lang) \<noteq> ''__proto__''"
  proof -
    have "inheritedProperty (trim (toLowerCase lang)) = None"
      using known by (simp add: inheritedProperty_def)
    then have ext: "pathSafe (getExtension lang) \<and> length (getExtension lang) \<le> 5"
      by (rule getExtension_safe)
    have len: "length ?stem \<le> 106"
    proof -
      have "length ?stem =
              length (sanitize (if ttl \<noteq> [] then ttl else slugToTitle slg)) + 1
              + length (getExtension lang)"
        by simp
      then show ?thesis
        using length_sanitize [of "if ttl \<noteq> [] then ttl else slugToTitle slg"] ext by linarith
    qed
    have safe: "pathSafe ?stem"
      using dot ext pathSafe_sanitize [of "if ttl \<noteq> [] then ttl else slugToTitle slg"]
      by (simp only: pathSafe_append)
    have "buildFilename sett slg ttl lang =
            (if filenameIncludeSlug sett then slg @ ''__'' else []) @ ?stem"
      by (simp add: buildFilename_def Let_def)
    then show ?thesis
      using len safe by blast
  qed
  show ?thesis
    using fname folders_safe length_sanitize pathSafe_sanitize no_double_underscore_sanitize
    by blast
qed

lemma normalizeCategory_example: "normalizeCategory ''Arrays & Hashing'' = ''Arrays_And_Hashing''"
  by code_simp

lemma normalised_python: "trim (toLowerCase ''python'') = ''python''"
  by code_simp

lemma normalizeListName_example: "normalizeListName ''Top & Best 75'' = ''Top_And_Best_75''"
  by code_simp

theorem sanitize_safe_witness:
  "folders DEFAULT_SETTINGS (Some ''Arrays & Hashing'') (Some ''Top & Best 75'')
      (normalizeDifficulty (Some ''Easy'')) = [''Top_And_Best_75'', ''Arrays_And_Hashing'']
   \<and> length ''Top_And_Best_75'' \<le> 100 \<and> pathSafe ''Top_And_Best_75''
   \<and> length ''Arrays_And_Hashing'' \<le> 100 \<and> pathSafe ''Arrays_And_Hashing''
   \<and> trim (toLowerCase ''python'') \<noteq> ''constructor'' \<and> trim (toLowerCase ''python'') \<noteq> ''__proto__''
   \<and> buildFilename DEFAULT_SETTINGS ''two-sum'' ''Two Sum'' ''python'' = ''Two_Sum.py''
   \<and> length ''Two_Sum.py'' \<le> 106 \<and> pathSafe ''Two_Sum.py''"
proof -
  have segs: "folders DEFAULT_SETTINGS (Some ''Arrays & Hashing'') (Some ''Top & Best 75'')
                (normalizeDifficulty (Some ''Easy'')) = [''Top_And_Best_75'', ''Arrays_And_Hashing'']"
    by (simp add: folders_def DEFAULT_SETTINGS_def truthy_def normalizeCategory_example
          normalizeListName_example)
  have known: "trim (toLowerCase ''python'') \<noteq> ''constructor''
               \<and> trim (toLowerCase ''python'') \<noteq> ''__proto__''"
    by (simp add: normalised_python)
  have plain: "\<not> filenameIncludeSlug DEFAULT_SETTINGS"
    by (simp add: DEFAULT_SETTINGS_def)
  note inst = sanitize_safe [where s = "''Two Sum''" and sett = DEFAULT_SETTINGS
                 and cat = "Some ''Arrays & Hashing''" and lst = "Some ''Top & Best 75''"
                 and d = "Some ''Easy''" and slg = "''two-sum''" and ttl = "''Two Sum''"
                 and lang = "''python''"]
  from inst have "\<forall>seg \<in> set (folders DEFAULT_SETTINGS (Some ''Arrays & Hashing'')
                       (Some ''Top & Best 75'') (normalizeDifficulty (Some ''Easy''))).
                    length seg \<le> 100 \<and> pathSafe seg"
    by blast
  then have "\<forall>seg \<in> set [''Top_And_Best_75'', ''Arrays_And_Hashing'']. length seg \<le> 100 \<and> pathSafe seg"
    by (simp only: segs)
  then have folder: "length ''Top_And_Best_75'' \<le> 100 \<and> pathSafe ''Top_And_Best_75''
                     \<and> length ''Arrays_And_Hashing'' \<le> 100 \<and> pathSafe ''Arrays_And_Hashing''"
    by simp
  from inst known obtain stem where
    stem: "buildFilename DEFAULT_SETTINGS ''two-sum'' ''Two Sum'' ''python'' =
             (if filenameIncludeSlug DEFAULT_SETTINGS then ''two-sum'' @ ''__'' else []) @ stem"
      "stem = sanitize (if ''Two Sum'' \<noteq> [] then ''Two Sum'' else slugToTitle ''two-sum'') @ ''.''
              @ getExtension ''python''"
      "length stem \<le> 106" "pathSafe stem"
    by blast
  have "stem = ''Two_Sum.py''"
    using stem(2) by (simp add: sanitize_Two_Sum getExtension_python)
  then have name: "buildFilename DEFAULT_SETTINGS ''two-sum'' ''Two Sum'' ''python'' = ''Two_Sum.py''
                   \<and> length ''Two_Sum.py'' \<le> 106 \<and> pathSafe ''Two_Sum.py''"
    using stem(1,3,4) plain by simp
  show ?thesis
    using segs folder known name by blast
qed

text \<open>With \<open>filenameIncludeSlug\<close> set, a slug that holds a colon, as the address of a problem
  page may, gives a file name that holds it too.\<close>

theorem filename_slug_prefix_counterexample:
  "buildFilename (DEFAULT_SETTINGS\<lparr>filenameIncludeSlug := True\<rparr>) ''a:b'' ''Two Sum'' ''python''
     = ''a:b__Two_Sum.py''
   \<and> \<not> pathSafe (buildFilename (DEFAULT_SETTINGS\<lparr>filenameIncludeSlug := True\<rparr>) ''a:b'' ''Two Sum''
                   ''python'')
   \<and> buildFilePath (DEFAULT_SETTINGS\<lparr>organizationMode := FLAT, filenameIncludeSlug := True\<rparr>)
       ''a:b'' ''Two Sum'' ''python'' None None = ''NeetSync/Problems/a:b__Two_Sum.py''"
  by (simp add: buildFilePath_def folders_def buildFilename_def DEFAULT_SETTINGS_def Let_def
        sanitize_Two_Sum getExtension_python pathSafe_def invalidChars_def)

subsection \<open>Merging the catalogue\<close>

lemma assignEntry_other: "k \<noteq> key \<Longrightarrow> assignEntry key v obj k = obj k"
  by (simp add: assignEntry_def)

lemma assignEntry_same: "key \<noteq> ''__proto__'' \<or> obj key \<noteq> None \<Longrightarrow> assignEntry key v obj key = Some v"
  by (auto simp: assignEntry_def)

lemma assignEntry_proto: "obj ''__proto__'' = None \<Longrightarrow> assignEntry ''__proto__'' v obj = obj"
  by (simp add: assignEntry_def)

lemma mergeEntries_other: "slg \<notin> fst ` set es \<Longrightarrow> mergeEntries es m slg = m slg"
  by (induction es m rule: mergeEntries.induct) (auto simp: assignEntry_other)

lemma mergeEntries_distinct:
  "distinct (map fst es) \<Longrightarrow> (slg, entry) \<in> set es \<Longrightarrow> slg \<noteq> ''__proto__'' \<or> m slg \<noteq> None \<Longrightarrow>
     mergeEntries es m slg = Some (mergeEntry (m slg) entry)"
proof (induction es m rule: mergeEntries.induct)
  case (1 m)
  then show ?case by simp
next
  case (2 s e rest m)
  show ?case
  proof (cases "(slg, entry) = (s, e)")
    case True
    with 2(2) have "slg \<notin> fst ` set rest" by auto
    with True 2(4) show ?thesis by (simp add: mergeEntries_other assignEntry_same)
  next
    case False
    with 2(3) have mem: "(slg, entry) \<in> set rest" by auto
    with 2(2) have neq: "slg \<noteq> s" by force
    have d: "distinct (map fst rest)" using 2(2) by simp
    have same: "assignEntry s (mergeEntry (m s) e) m slg = m slg"
      using neq by (rule assignEntry_other)
    have own: "slg \<noteq> ''__proto__'' \<or> assignEntry s (mergeEntry (m s) e) m slg \<noteq> None"
      using 2(4) same by simp
    have "mergeEntries rest (assignEntry s (mergeEntry (m s) e) m) slg =
            Some (mergeEntry (assignEntry s (mergeEntry (m s) e) m slg) entry)"
      by (rule 2(1) [OF d mem own])
    then show ?thesis using same by simp
  qed
qed

text \<open>An incoming entry under the name \<^verbatim>\<open>__proto__\<close>, when the mapping owns no such entry, is
  not stored.\<close>

lemma mergeEntries_proto:
  "distinct (map fst es) \<Longrightarrow> (''__proto__'', entry) \<in> set es \<Longrightarrow> m ''__proto__'' = None \<Longrightarrow>
     mergeEntries es m ''__proto__'' = None"
proof (induction es m rule: mergeEntries.induct)
  case (1 m)
  then show ?case by simp
next
  case (2 s e rest m)
  show ?case
  proof (cases "s = ''__proto__''")
    case True
    with 2(2) have "''__proto__'' \<notin> fst ` set rest" by auto
    with True 2(4) show ?thesis by (simp add: mergeEntries_other assignEntry_proto)
  next
    case False
    with 2(3) have mem: "(''__proto__'', entry) \<in> set rest" by auto
    have d: "distinct (map fst rest)" using 2(2) by simp
    have none: "assignEntry s (mergeEntry (m s) e) m ''__proto__'' = None"
      using False 2(4) by (simp add: assignEntry_other)
    show ?thesis
      using 2(1) [OF d mem none] by simp
  qed
qed

lemma set_uniq: "set (uniq xs) = set xs \<and> distinct (uniq xs)"
  by (simp add: uniq_def)

text \<open>
  Claim C5, as amended. For a slug of the incoming object other than \<^verbatim>\<open>__proto__\<close>, each of
  title, category, list name and difficulty of the merged entry is the incoming value when that
  is not empty, and the stored value otherwise: an empty or missing incoming field never erases
  a stored one, a field that is not stored is filled from the incoming entry, and a stored field
  gives way to a non-empty incoming one. The sources of the merged entry are the stored sources
  and the incoming URL, each once.
\<close>

theorem mergeMapping_incoming_wins:
  assumes "distinct (map fst newEntries)" and "(slg, entry) \<in> set newEntries"
    and "slg \<noteq> ''__proto__''"
  shows "\<exists>merged srcs.
           entries (mapping (mergeMapping newEntries now st)) slg = Some merged
           \<and> m_title merged = (if truthy (i_title entry) then i_title entry
                                else Option.bind (entries (mapping st) slg) m_title)
           \<and> m_category merged = (if truthy (i_category entry) then i_category entry
                                   else Option.bind (entries (mapping st) slg) m_category)
           \<and> m_listName merged = (if truthy (i_listName entry) then i_listName entry
                                   else Option.bind (entries (mapping st) slg) m_listName)
           \<and> m_difficulty merged = (if truthy (i_difficulty entry) then i_difficulty entry
                                     else Option.bind (entries (mapping st) slg) m_difficulty)
           \<and> m_sources merged = Some srcs
           \<and> distinct srcs
           \<and> set srcs = (case Option.bind (entries (mapping st) slg) m_sources of
                           None \<Rightarrow> {} | Some old \<Rightarrow> set old) \<union> {sourceUrl entry}"
proof -
  have "entries (mapping (mergeMapping newEntries now st)) slg =
          Some (mergeEntry (entries (mapping st) slg) entry)"
    using assms by (simp add: mergeMapping_def mergeEntries_distinct)
  then show ?thesis
    by (auto simp: mergeEntry_def jsOr_def set_uniq split: option.splits)
qed

theorem mergeMapping_incoming_wins_witness:
  "distinct (map fst [(''two-sum'', incomingTwoSum)])
   \<and> (''two-sum'', incomingTwoSum) \<in> set [(''two-sum'', incomingTwoSum)]
   \<and> ''two-sum'' \<noteq> ''__proto__''
   \<and> (\<exists>merged srcs.
         entries (mapping (mergeMapping [(''two-sum'', incomingTwoSum)] 1700000300000
            (exampleStore\<lparr>mapping := \<lparr>version = 1, updatedAt = 0,
                                       entries = [''two-sum'' \<mapsto> storedTwoSum]\<rparr>\<rparr>))) ''two-sum''
           = Some merged
         \<and> m_title merged = Some ''Two Integer Sum''
         \<and> m_category merged = Some ''Arrays & Hashing''
         \<and> m_listName merged = Some ''NeetCode 150''
         \<and> m_difficulty merged = Some ''Easy''
         \<and> m_sources merged = Some srcs
         \<and> distinct srcs
         \<and> set srcs = {''https://neetcode.io/roadmap'', ''https://neetcode.io/practice''})"
proof -
  have d: "distinct (map fst [(''two-sum'', incomingTwoSum)])"
    and m: "(''two-sum'', incomingTwoSum) \<in> set [(''two-sum'', incomingTwoSum)]"
    and k: "''two-sum'' \<noteq> ''__proto__''"
    by simp_all
  from mergeMapping_incoming_wins [OF d m k, of 1700000300000
         "exampleStore\<lparr>mapping := \<lparr>version = 1, updatedAt = 0,
                                    entries = [''two-sum'' \<mapsto> storedTwoSum]\<rparr>\<rparr>"]
  show ?thesis
    by (simp add: incomingTwoSum_def storedTwoSum_def truthy_def)
qed

text \<open>A stored title that is not empty is replaced by the incoming title.\<close>

theorem mergeMapping_overwrites_counterexample:
  "truthy (m_title storedTwoSum)
   \<and> Option.bind
        (entries (mapping (mergeMapping [(''two-sum'', incomingTwoSum)] 1700000300000
           (exampleStore\<lparr>mapping := \<lparr>version = 1, updatedAt = 0,
                                      entries = [''two-sum'' \<mapsto> storedTwoSum]\<rparr>\<rparr>))) ''two-sum'')
        m_title = Some ''Two Integer Sum''
   \<and> Some ''Two Integer Sum'' \<noteq> m_title storedTwoSum"
  by (simp add: mergeMapping_def assignEntry_def mergeEntry_def jsOr_def truthy_def storedTwoSum_def
        incomingTwoSum_def)

subsection \<open>What a pass does to the queue\<close>

lemma addLog_frame:
  "queue (addLog lv msg det st) = queue st \<and> settings (addLog lv msg det st) = settings st
   \<and> token (addLog lv msg det st) = token st \<and> mapping (addLog lv msg det st) = mapping st
   \<and> isProcessing (addLog lv msg det st) = isProcessing st"
  by (simp add: addLog_def)

lemma createOrUpdateFile_frame:
  "createOrUpdateFile att path content sha st = (r, st') \<Longrightarrow>
     queue st' = queue st \<and> settings st' = settings st \<and> token st' = token st
     \<and> mapping st' = mapping st \<and> isProcessing st' = isProcessing st"
  by (auto simp: createOrUpdateFile_def Let_def split: if_splits sum.splits)

lemma commitSolutionFile_frame:
  "commitSolutionFile att path content ovw st = (ok, st') \<Longrightarrow>
     queue st' = queue st \<and> settings st' = settings st \<and> token st' = token st
     \<and> mapping st' = mapping st \<and> isProcessing st' = isProcessing st"
  unfolding commitSolutionFile_def Let_def
  by (auto simp: addLog_frame split: sum.splits if_splits prod.splits option.splits
           dest!: createOrUpdateFile_frame)

lemma processItem_frame:
  "processItem P att item sett mp st = (r, st') \<Longrightarrow>
     queue st' = queue st \<and> settings st' = settings st \<and> token st' = token st
     \<and> mapping st' = mapping st \<and> isProcessing st' = isProcessing st"
  unfolding processItem_def Let_def
  by (auto split: if_splits sum.splits prod.splits dest!: commitSolutionFile_frame)

text \<open>The result of an attempt depends on neither the store nor the retry fields of the item.\<close>

lemma createOrUpdateFile_result:
  "fst (createOrUpdateFile att path content sha st) = fst (createOrUpdateFile att path content sha st')"
  by (auto simp: createOrUpdateFile_def Let_def split: if_splits sum.splits)

lemma commitSolutionFile_result:
  "fst (commitSolutionFile att path content ovw st) = fst (commitSolutionFile att path content ovw st')"
proof -
  have "fst (createOrUpdateFile att path content sha s) = fst (createOrUpdateFile att path content sha s')"
    for sha s s'
    by (rule createOrUpdateFile_result)
  then show ?thesis
    unfolding commitSolutionFile_def Let_def
    by (auto split: sum.splits prod.splits option.splits) (metis fst_conv option.distinct(1))+
qed


lemma processItem_result:
  "fst (processItem P att (item\<lparr>retries := r, lastAttempt := l\<rparr>) sett mp st)
     = fst (processItem P att item sett mp st')"
proof -
  have c: "fst (commitSolutionFile att path content ovw st) = fst (commitSolutionFile att path content ovw st')"
    for path content ovw
    by (rule commitSolutionFile_result)
  show ?thesis
    unfolding processItem_def Let_def
    by (auto split: sum.splits prod.splits) (metis c fst_conv)+
qed

lemma processItem_result_store:
  "fst (processItem P att item sett mp st) = fst (processItem P att item sett mp st')"
  using processItem_result [where item = item and r = "retries item" and l = "lastAttempt item"]
  by simp

subsection \<open>Entries of the queue by identifier\<close>

lemma filter_removeFromQueue:
  "filter (\<lambda>q. item_id q = a) (queue (removeFromQueue i st)) =
     (if a = i then [] else filter (\<lambda>q. item_id q = a) (queue st))"
  by (auto simp: removeFromQueue_def filter_empty_conv intro: filter_cong)

lemma filter_updateFirst_other:
  "a \<noteq> i \<Longrightarrow> filter (\<lambda>q. item_id q = a) (updateFirst i r t qs) = filter (\<lambda>q. item_id q = a) qs"
  by (induction qs) auto

lemma filter_updateFirst_same:
  "filter (\<lambda>q. item_id q = i) qs = [x] \<Longrightarrow>
     filter (\<lambda>q. item_id q = i) (updateFirst i r t qs) = [x\<lparr>retries := r, lastAttempt := Some t\<rparr>]"
proof (induction qs)
  case Nil
  then show ?case by simp
next
  case (Cons q qs)
  show ?case
  proof (cases "item_id q = i")
    case True
    with Cons.prems have "q = x" and "filter (\<lambda>q. item_id q = i) qs = []" by auto
    with True show ?thesis by simp
  next
    case False
    with Cons show ?thesis by simp
  qed
qed

lemma map_id_updateFirst: "map item_id (updateFirst i r t qs) = map item_id qs"
  by (induction qs) auto

lemma onSuccess_queue:
  "queue (store (onSuccess P item mp ps)) = filter (\<lambda>q. item_id q \<noteq> item_id item) (queue (store ps))"
  by (simp add: onSuccess_def Let_def removeFromQueue_def updateSolved_def)

lemma onFailure_queue:
  "queue (store (onFailure att item msg ps)) =
     (if retries item \<ge> MAX_RETRIES then filter (\<lambda>q. item_id q \<noteq> item_id item) (queue (store ps))
      else updateFirst (item_id item) (retries item + 1) (failedAt att) (queue (store ps)))"
  by (simp add: onFailure_def removeFromQueue_def updateQueueItem_def addLog_def)

text \<open>What one step of the loop does to the queue in the store.\<close>

lemma processOne_queue:
  "queue (store (processOne P sett mp att item ps)) =
     (if skipForBackoff (checkedAt att) item then queue (store ps)
      else if fst (processItem P att item sett mp (store ps)) = Inr True
      then filter (\<lambda>q. item_id q \<noteq> item_id item) (queue (store ps))
      else if retries item \<ge> MAX_RETRIES
      then filter (\<lambda>q. item_id q \<noteq> item_id item) (queue (store ps))
      else updateFirst (item_id item) (retries item + 1) (failedAt att) (queue (store ps)))"
proof (cases "processItem P att item sett mp (store ps)")
  case (Pair r st')
  then have q: "queue st' = queue (store ps)"
    using processItem_frame by blast
  show ?thesis
    using Pair q
    by (cases r) (auto simp: processOne_def onSuccess_queue onFailure_queue)
qed

lemma processOne_other:
  assumes "item_id item \<noteq> a"
  shows "filter (\<lambda>q. item_id q = a) (queue (store (processOne P sett mp att item ps)))
           = filter (\<lambda>q. item_id q = a) (queue (store ps))"
proof -
  have rm: "filter (\<lambda>q. item_id q \<noteq> item_id item \<and> item_id q = a) qs
              = filter (\<lambda>q. item_id q = a) qs" for qs
    using assms by (induction qs) auto
  show ?thesis
    using assms by (simp add: processOne_queue rm filter_updateFirst_other)
qed

lemma processItems_other:
  "a \<notin> item_id ` set items \<Longrightarrow>
     filter (\<lambda>q. item_id q = a) (queue (store (processItems P sett mp env items ps)))
       = filter (\<lambda>q. item_id q = a) (queue (store ps))"
proof (induction items arbitrary: ps)
  case Nil
  show ?case by simp
next
  case (Cons item items)
  then have "item_id item \<noteq> a" and "a \<notin> item_id ` set items" by auto
  then show ?case
    using Cons.IH [of "processOne P sett mp (attempts env (item_id item)) item ps"]
    by (simp add: processOne_other)
qed

lemma processItems_append:
  "processItems P sett mp env (xs @ ys) ps =
     processItems P sett mp env ys (processItems P sett mp env xs ps)"
  by (induction xs arbitrary: ps) auto

lemma processOne_ids:
  "item_id ` set (queue (store (processOne P sett mp att item ps))) \<subseteq> item_id ` set (queue (store ps))
   \<and> (distinct (map item_id (queue (store ps)))
        \<longrightarrow> distinct (map item_id (queue (store (processOne P sett mp att item ps)))))"
proof -
  have "set (map item_id (updateFirst i r t qs)) = set (map item_id qs)" for i r t qs
    by (simp only: map_id_updateFirst)
  then have upd: "item_id ` set (updateFirst i r t qs) = item_id ` set qs" for i r t qs
    by simp
  show ?thesis
    by (auto simp: processOne_queue upd map_id_updateFirst distinct_map_filter)
qed

lemma processItems_ids:
  "item_id ` set (queue (store (processItems P sett mp env items ps))) \<subseteq> item_id ` set (queue (store ps))
   \<and> (distinct (map item_id (queue (store ps)))
        \<longrightarrow> distinct (map item_id (queue (store (processItems P sett mp env items ps)))))"
proof (induction items arbitrary: ps)
  case Nil
  show ?case by simp
next
  case (Cons item items)
  show ?case
    using Cons.IH [of "processOne P sett mp (attempts env (item_id item)) item ps"]
          processOne_ids [of P sett mp "attempts env (item_id item)" item ps]
    by auto
qed


lemma distinct_filter_id:
  "distinct (map item_id qs) \<Longrightarrow> x \<in> set qs \<Longrightarrow> filter (\<lambda>q. item_id q = item_id x) qs = [x]"
proof (induction qs)
  case Nil
  then show ?case by simp
next
  case (Cons q qs)
  show ?case
  proof (cases "q = x")
    case True
    with Cons.prems have "item_id x \<notin> item_id ` set qs" by simp
    then have "filter (\<lambda>q. item_id q = item_id x) qs = []"
      unfolding filter_empty_conv by (metis imageI)
    with True show ?thesis by simp
  next
    case False
    with Cons.prems have "x \<in> set qs" and "item_id q \<noteq> item_id x" by auto
    with Cons show ?thesis by simp
  qed
qed

text \<open>The loop over a snapshot with distinct identifiers, for an item whose attempt fails.\<close>

lemma processItems_failed_item:
  assumes ids: "distinct (map item_id items)" and mem: "x \<in> set items"
    and cur: "filter (\<lambda>q. item_id q = item_id x) (queue (store ps)) = [x]"
    and due: "\<not> skipForBackoff (checkedAt (attempts env (item_id x))) x"
    and fails: "fst (processItem P (attempts env (item_id x)) x sett mp st0) \<noteq> Inr True"
  shows "filter (\<lambda>q. item_id q = item_id x) (queue (store (processItems P sett mp env items ps))) =
           (if retries x \<ge> MAX_RETRIES then []
            else [x\<lparr>retries := retries x + 1,
                    lastAttempt := Some (failedAt (attempts env (item_id x)))\<rparr>])"
proof -
  from mem obtain pre post where split: "items = pre @ x # post"
    by (auto dest: split_list)
  with ids have pre: "item_id x \<notin> item_id ` set pre" and post: "item_id x \<notin> item_id ` set post"
    by auto
  let ?ps1 = "processItems P sett mp env pre ps"
  let ?ps2 = "processOne P sett mp (attempts env (item_id x)) x ?ps1"
  have one: "filter (\<lambda>q. item_id q = item_id x) (queue (store ?ps1)) = [x]"
    using processItems_other [OF pre] cur by simp
  have f: "fst (processItem P (attempts env (item_id x)) x sett mp (store ?ps1)) \<noteq> Inr True"
    using fails processItem_result_store [of P "attempts env (item_id x)" x sett mp "store ?ps1" st0]
    by simp
  have rm: "filter (\<lambda>q. item_id q = item_id x) (filter (\<lambda>q. item_id q \<noteq> item_id x) qs) = []" for qs
    by (induction qs) auto
  have two: "filter (\<lambda>q. item_id q = item_id x) (queue (store ?ps2)) =
           (if retries x \<ge> MAX_RETRIES then []
            else [x\<lparr>retries := retries x + 1,
                    lastAttempt := Some (failedAt (attempts env (item_id x)))\<rparr>])"
  proof (cases "retries x \<ge> MAX_RETRIES")
    case True
    then show ?thesis
      using due f by (simp only: processOne_queue if_True if_False rm)
  next
    case False
    then show ?thesis
      using due f filter_updateFirst_same [OF one]
      by (simp only: processOne_queue if_True if_False)
  qed
  have "processItems P sett mp env items ps = processItems P sett mp env post ?ps2"
    by (simp add: split processItems_append)
  then show ?thesis
    using processItems_other [OF post, of P sett mp env ?ps2] two by simp
qed

lemma processOne_config:
  "settings (store (processOne P sett mp att item ps)) = settings (store ps)
   \<and> token (store (processOne P sett mp att item ps)) = token (store ps)
   \<and> mapping (store (processOne P sett mp att item ps)) = mapping (store ps)
   \<and> isProcessing (store (processOne P sett mp att item ps)) = isProcessing (store ps)"
proof (cases "processItem P att item sett mp (store ps)")
  case (Pair r st')
  then have fr: "settings st' = settings (store ps) \<and> token st' = token (store ps)
                 \<and> mapping st' = mapping (store ps) \<and> isProcessing st' = isProcessing (store ps)"
    using processItem_frame by blast
  show ?thesis
    using Pair fr
    by (cases r)
       (auto simp: processOne_def onSuccess_def onFailure_def Let_def removeFromQueue_def
          updateSolved_def updateQueueItem_def addLog_def split: bool.splits)
qed

lemma processItems_config:
  "settings (store (processItems P sett mp env items ps)) = settings (store ps)
   \<and> token (store (processItems P sett mp env items ps)) = token (store ps)
   \<and> mapping (store (processItems P sett mp env items ps)) = mapping (store ps)
   \<and> isProcessing (store (processItems P sett mp env items ps)) = isProcessing (store ps)"
proof (induction items arbitrary: ps)
  case Nil
  show ?case by simp
next
  case (Cons item items)
  show ?case
    using Cons.IH [of "processOne P sett mp (attempts env (item_id item)) item ps"]
          processOne_config [of P sett mp "attempts env (item_id item)" item ps]
    by simp
qed

lemma truthy_simps: "truthy None = False" "truthy (Some s) = (s \<noteq> [])"
  by (simp_all add: truthy_def)

lemma truthy_getToken: "truthy (getToken st) = (getToken st \<noteq> None)"
  by (cases "token st") (simp_all add: getToken_def truthy_simps)

lemma getToken_flag: "getToken (st\<lparr>isProcessing := b\<rparr>) = getToken st"
  by (simp add: getToken_def)

lemma syncProgressFiles_frame:
  "queue (syncProgressFiles env st) = queue st \<and> settings (syncProgressFiles env st) = settings st
   \<and> token (syncProgressFiles env st) = token st \<and> mapping (syncProgressFiles env st) = mapping st"
  by (simp add: syncProgressFiles_def Let_def addLog_def split: option.splits)

lemma loopStart_frame:
  "queue (store (loopStart st)) = queue st \<and> settings (store (loopStart st)) = settings st
   \<and> token (store (loopStart st)) = token st \<and> mapping (store (loopStart st)) = mapping st"
  by (simp add: loopStart_def addLog_def)

text \<open>A pass that reaches the loop: the fields of its result that the end of the pass keeps.\<close>

lemma processQueue_runs:
  assumes "\<not> isProcessing st" and "queue st \<noteq> []" and "getToken st \<noteq> None"
    and "repoFullName (settings st) \<noteq> []"
  shows "queue (processQueue P env st) =
           queue (store (processItems P (settings st) (mapping st) env (queue st) (loopStart st)))
         \<and> settings (processQueue P env st) =
           settings (store (processItems P (settings st) (mapping st) env (queue st) (loopStart st)))
         \<and> token (processQueue P env st) =
           token (store (processItems P (settings st) (mapping st) env (queue st) (loopStart st)))
         \<and> mapping (processQueue P env st) =
           mapping (store (processItems P (settings st) (mapping st) env (queue st) (loopStart st)))
         \<and> \<not> isProcessing (processQueue P env st)"
proof -
  have t: "truthy (getToken (st\<lparr>isProcessing := True\<rparr>))"
    using assms(3) truthy_getToken [of st] by (simp add: getToken_flag)
  have "processQueue P env st =
          (let ps = processItems P (settings st) (mapping st) env (queue st) (loopStart st)
           in (if processedCount ps > 0
               then addLog success
                      (''Queue processed: '' @ showNat (processedCount ps)
                       @ '' synced, '' @ showNat (errorCount ps) @ '' failed'')
                      None
                      (setLastSync (finishedAt env) (syncProgressFiles env (store ps)))
               else store ps)\<lparr>isProcessing := False\<rparr>)"
    using assms t by (simp add: processQueue_def Let_def loopStart_def)
  then show ?thesis
    by (simp add: Let_def addLog_frame setLastSync_def syncProgressFiles_frame)
qed

text \<open>A pass that does not reach the loop leaves the store as it is, but for the log.\<close>

lemma processQueue_stops:
  assumes "isProcessing st \<or> queue st = [] \<or> getToken st = None \<or> repoFullName (settings st) = []"
  shows "queue (processQueue P env st) = queue st \<and> settings (processQueue P env st) = settings st
         \<and> token (processQueue P env st) = token st \<and> mapping (processQueue P env st) = mapping st
         \<and> isProcessing (processQueue P env st) = isProcessing st"
proof -
  consider (busy) "isProcessing st"
    | (empty) "\<not> isProcessing st" "queue st = []"
    | (unconfigured) "\<not> isProcessing st" "queue st \<noteq> []"
        "getToken st = None \<or> repoFullName (settings st) = []"
    using assms by blast
  then show ?thesis
  proof cases
    case busy
    then show ?thesis by (simp add: processQueue_def addLog_frame)
  next
    case empty
    then show ?thesis by (simp add: processQueue_def Let_def)
  next
    case unconfigured
    have "\<not> truthy (getToken (st\<lparr>isProcessing := True\<rparr>)) \<or> repoFullName (settings st) = []"
      using unconfigured(3) by (auto simp: getToken_flag truthy_simps)
    then have "processQueue P env st =
        (addLog warn ''GitHub not configured, skipping queue processing'' None
           (st\<lparr>isProcessing := True\<rparr>))\<lparr>isProcessing := False\<rparr>"
      using unconfigured(1,2) by (auto simp: processQueue_def Let_def)
    then show ?thesis
      using unconfigured(1) by (simp add: addLog_frame)
  qed
qed

lemma processQueue_config:
  "settings (processQueue P env st) = settings st \<and> token (processQueue P env st) = token st
   \<and> mapping (processQueue P env st) = mapping st
   \<and> isProcessing (processQueue P env st) = isProcessing st"
proof (cases "isProcessing st \<or> queue st = [] \<or> getToken st = None \<or> repoFullName (settings st) = []")
  case True
  then show ?thesis using processQueue_stops by blast
next
  case False
  then show ?thesis
    using processQueue_runs [of st P env]
          processItems_config [of P "settings st" "mapping st" env "queue st" "loopStart st"]
          loopStart_frame [of st]
    by simp
qed

lemma processQueue_ids:
  "item_id ` set (queue (processQueue P env st)) \<subseteq> item_id ` set (queue st)
   \<and> (distinct (map item_id (queue st)) \<longrightarrow> distinct (map item_id (queue (processQueue P env st))))"
proof (cases "isProcessing st \<or> queue st = [] \<or> getToken st = None \<or> repoFullName (settings st) = []")
  case True
  then have "queue (processQueue P env st) = queue st"
    using processQueue_stops by blast
  then show ?thesis by simp
next
  case False
  then show ?thesis
    using processQueue_runs [of st P env]
          processItems_ids [of P "settings st" "mapping st" env "queue st" "loopStart st"]
          loopStart_frame [of st]
    by simp
qed

lemma getToken_cong: "token a = token b \<Longrightarrow> getToken a = getToken b"
  by (simp add: getToken_def)

text \<open>A pass over a queue with distinct identifiers, for an item that is due and whose attempt
  fails: the queue entry under its identifier afterwards.\<close>

lemma pass_failed_item:
  assumes idle: "\<not> isProcessing st" and tok: "getToken st \<noteq> None"
    and repo: "repoFullName (settings st) \<noteq> []"
    and ids: "distinct (map item_id (queue st))" and mem: "x \<in> set (queue st)"
    and due: "\<not> skipForBackoff (checkedAt (attempts env (item_id x))) x"
    and fails: "fst (processItem P (attempts env (item_id x)) x (settings st) (mapping st) st) \<noteq> Inr True"
  shows "filter (\<lambda>q. item_id q = item_id x) (queue (processQueue P env st)) =
           (if retries x \<ge> MAX_RETRIES then []
            else [x\<lparr>retries := retries x + 1,
                    lastAttempt := Some (failedAt (attempts env (item_id x)))\<rparr>])"
proof -
  have ne: "queue st \<noteq> []" using mem by auto
  have cur: "filter (\<lambda>q. item_id q = item_id x) (queue (store (loopStart st))) = [x]"
    using distinct_filter_id [OF ids mem] loopStart_frame [of st] by simp
  show ?thesis
    using processItems_failed_item [OF ids mem cur due fails]
          processQueue_runs [OF idle ne tok repo, of P env]
    by simp
qed

text \<open>A write that the remote rejects makes the attempt fail, whatever the item.\<close>

lemma processItem_rejected:
  assumes "firstGet att = GetOk sha" and "sha \<noteq> []" and "overwrite sett" and "putFile att = PutError msg"
  shows "fst (processItem P att item sett mp st) \<noteq> Inr True"
proof -
  have c: "fst (commitSolutionFile att path content True s) = False" for path content s
    using assms(1,2,4)
    by (simp add: commitSolutionFile_def createOrUpdateFile_def getFile_def Let_def truthy_simps)
  have c': "commitSolutionFile att path content True s = (ok, s') \<Longrightarrow> \<not> ok" for path content s ok s'
    using c [of path content s] by simp
  show ?thesis
    using assms(3)
    by (auto simp: processItem_def Let_def split: sum.splits prod.splits dest: c')
qed

subsection \<open>The guard of the loop\<close>



subsection \<open>A failed attempt\<close>

text \<open>
  Claim C4. In a pass over a queue with distinct identifiers, when the attempt on an item that
  is due fails, \<open>processItem\<close> returning false or throwing, and the item has fewer than 5
  retries, the queue after the pass holds under the item's identifier exactly the item with
  \<open>retries\<close> one higher and \<open>lastAttempt\<close> set to the time read in the \<open>catch\<close> block. The pass
  itself returns a store for every outcome of the attempt: \<open>processOne\<close> turns a thrown error
  into the same bookkeeping as a failed commit.
\<close>

theorem failed_attempt_retried:
  assumes idle: "\<not> isProcessing st" and tok: "getToken st \<noteq> None"
    and repo: "repoFullName (settings st) \<noteq> []"
    and ids: "distinct (map item_id (queue st))" and mem: "x \<in> set (queue st)"
    and below: "retries x < 5"
    and due: "\<not> skipForBackoff (checkedAt (attempts env (item_id x))) x"
    and fails: "fst (processItem P (attempts env (item_id x)) x (settings st) (mapping st) st) \<noteq> Inr True"
  shows "filter (\<lambda>q. item_id q = item_id x) (queue (processQueue P env st)) =
           [x\<lparr>retries := retries x + 1, lastAttempt := Some (failedAt (attempts env (item_id x)))\<rparr>]"
  using pass_failed_item [OF idle tok repo ids mem due fails] below
  by (simp add: MAX_RETRIES_def)

theorem failed_attempt_retried_witness:
  "\<not> isProcessing (exampleStore\<lparr>queue := [exampleItem]\<rparr>)
   \<and> getToken (exampleStore\<lparr>queue := [exampleItem]\<rparr>) \<noteq> None
   \<and> retries exampleItem < 5
   \<and> putFile (attempts (failingPass 1700000100000) (item_id exampleItem))
       = PutError ''GitHub API error 409: stale sha''
   \<and> filter (\<lambda>q. item_id q = item_id exampleItem)
        (queue (processQueue examplePlatform (failingPass 1700000100000)
                  (exampleStore\<lparr>queue := [exampleItem]\<rparr>))) =
       [exampleItem\<lparr>retries := 1, lastAttempt := Some 1700000100500\<rparr>]"
proof -
  let ?st = "exampleStore\<lparr>queue := [exampleItem]\<rparr>"
  let ?env = "failingPass 1700000100000"
  have idle: "\<not> isProcessing ?st" and tok: "getToken ?st \<noteq> None"
    and repo: "repoFullName (settings ?st) \<noteq> []"
    and ids: "distinct (map item_id (queue ?st))" and mem: "exampleItem \<in> set (queue ?st)"
    by (simp_all add: exampleStore_def getToken_def truthy_simps DEFAULT_SETTINGS_def)
  have below: "retries exampleItem < 5"
    by (simp add: exampleItem_def)
  have due: "\<not> skipForBackoff (checkedAt (attempts ?env (item_id exampleItem))) exampleItem"
    by (simp add: skipForBackoff_def exampleItem_def)
  have fails: "fst (processItem examplePlatform (attempts ?env (item_id exampleItem)) exampleItem
                      (settings ?st) (mapping ?st) ?st) \<noteq> Inr True"
    by (rule processItem_rejected [where sha = "''3f2a''" and msg = "''GitHub API error 409: stale sha''"])
       (simp_all add: failingPass_def rejectingAt_def exampleStore_def DEFAULT_SETTINGS_def)
  from failed_attempt_retried [OF idle tok repo ids mem below due fails]
  show ?thesis
    using idle tok below
    by (simp add: failingPass_def rejectingAt_def exampleItem_def)
qed

subsection \<open>The retry ceiling\<close>

lemma runPasses_append: "runPasses P (a @ b) st = runPasses P b (runPasses P a st)"
  by (induction a arbitrary: st) auto

lemma runPasses_ids:
  "item_id ` set (queue (runPasses P envs st)) \<subseteq> item_id ` set (queue st)"
proof (induction envs arbitrary: st)
  case Nil
  show ?case by simp
next
  case (Cons env envs)
  show ?case
    using Cons.IH [of "processQueue P env st"] processQueue_ids [of P env st]
    by auto
qed

text \<open>An item that fails in each of a run of passes, with the retries it ends with at most 5.\<close>

lemma failing_passes:
  assumes "\<not> isProcessing st" and "getToken st \<noteq> None" and "repoFullName (settings st) \<noteq> []"
    and "distinct (map item_id (queue st))" and "x \<in> set (queue st)"
    and "retries x + length envs \<le> 5"
    and "\<forall>env \<in> set envs.
           fst (processItem P (attempts env (item_id x)) x (settings st) (mapping st) st) \<noteq> Inr True"
    and "envs \<noteq> [] \<longrightarrow> \<not> skipForBackoff (checkedAt (attempts (hd envs) (item_id x))) x"
    and "\<forall>j. Suc j < length envs \<longrightarrow>
           getBackoffDelay (retries x + j)
             \<le> checkedAt (attempts (envs ! Suc j) (item_id x)) - failedAt (attempts (envs ! j) (item_id x))"
  shows "filter (\<lambda>q. item_id q = item_id x) (queue (runPasses P envs st)) =
           [x\<lparr>retries := retries x + length envs,
              lastAttempt := (if envs = [] then lastAttempt x
                              else Some (failedAt (attempts (last envs) (item_id x))))\<rparr>]
         \<and> \<not> isProcessing (runPasses P envs st)
         \<and> settings (runPasses P envs st) = settings st
         \<and> token (runPasses P envs st) = token st
         \<and> mapping (runPasses P envs st) = mapping st
         \<and> distinct (map item_id (queue (runPasses P envs st)))"
  using assms
proof (induction envs arbitrary: st x)
  case Nil
  then show ?case
    using distinct_filter_id [of "queue st" x] by simp
next
  case (Cons env envs)
  let ?i = "item_id x"
  let ?st1 = "processQueue P env st"
  let ?x1 = "x\<lparr>retries := retries x + 1, lastAttempt := Some (failedAt (attempts env ?i))\<rparr>"
  have below: "retries x < 5" using Cons.prems(6) by simp
  have due: "\<not> skipForBackoff (checkedAt (attempts env ?i)) x"
    using Cons.prems(8) by simp
  have fails: "fst (processItem P (attempts env ?i) x (settings st) (mapping st) st) \<noteq> Inr True"
    using Cons.prems(7) by simp
  have one: "filter (\<lambda>q. item_id q = ?i) (queue ?st1) = [?x1]"
    using pass_failed_item [OF Cons.prems(1-5) due fails] below by (simp add: MAX_RETRIES_def)
  have cfg: "settings ?st1 = settings st \<and> token ?st1 = token st \<and> mapping ?st1 = mapping st
             \<and> isProcessing ?st1 = isProcessing st"
    by (rule processQueue_config)
  have p1: "\<not> isProcessing ?st1" using cfg Cons.prems(1) by simp
  have p2: "getToken ?st1 \<noteq> None" using cfg Cons.prems(2) getToken_cong [of ?st1 st] by simp
  have p3: "repoFullName (settings ?st1) \<noteq> []" using cfg Cons.prems(3) by simp
  have p4: "distinct (map item_id (queue ?st1))"
    using processQueue_ids [of P env st] Cons.prems(4) by simp
  have p5: "?x1 \<in> set (queue ?st1)"
  proof -
    have "?x1 \<in> set (filter (\<lambda>q. item_id q = ?i) (queue ?st1))" using one by simp
    then show ?thesis by simp
  qed
  have p6: "retries ?x1 + length envs \<le> 5" using Cons.prems(6) by simp
  have p7: "\<forall>e \<in> set envs.
              fst (processItem P (attempts e (item_id ?x1)) ?x1 (settings ?st1) (mapping ?st1) ?st1)
                \<noteq> Inr True"
  proof
    fix e assume "e \<in> set envs"
    then have "fst (processItem P (attempts e ?i) x (settings st) (mapping st) st) \<noteq> Inr True"
      using Cons.prems(7) by simp
    then show "fst (processItem P (attempts e (item_id ?x1)) ?x1 (settings ?st1) (mapping ?st1) ?st1)
                 \<noteq> Inr True"
      using cfg processItem_result [where P = P and att = "attempts e ?i" and item = x
              and r = "retries x + 1" and l = "Some (failedAt (attempts env ?i))"
              and sett = "settings st" and mp = "mapping st" and st = ?st1 and st' = st]
      by simp
  qed
  have p8: "envs \<noteq> [] \<longrightarrow> \<not> skipForBackoff (checkedAt (attempts (hd envs) (item_id ?x1))) ?x1"
  proof
    assume ne: "envs \<noteq> []"
    then have "Suc 0 < length (env # envs)" by simp
    then have "getBackoffDelay (retries x + 0)
                 \<le> checkedAt (attempts ((env # envs) ! Suc 0) ?i) - failedAt (attempts ((env # envs) ! 0) ?i)"
      using Cons.prems(9) by blast
    then have "getBackoffDelay (retries x) \<le> checkedAt (attempts (hd envs) ?i) - failedAt (attempts env ?i)"
      using ne by (simp add: hd_conv_nth)
    then show "\<not> skipForBackoff (checkedAt (attempts (hd envs) (item_id ?x1))) ?x1"
      by (simp add: skipForBackoff_def)
  qed
  have p9: "\<forall>j. Suc j < length envs \<longrightarrow>
              getBackoffDelay (retries ?x1 + j)
                \<le> checkedAt (attempts (envs ! Suc j) (item_id ?x1))
                    - failedAt (attempts (envs ! j) (item_id ?x1))"
  proof (intro allI impI)
    fix j assume "Suc j < length envs"
    then have "Suc (Suc j) < length (env # envs)" by simp
    then have "getBackoffDelay (retries x + Suc j)
                 \<le> checkedAt (attempts ((env # envs) ! Suc (Suc j)) ?i)
                     - failedAt (attempts ((env # envs) ! Suc j) ?i)"
      using Cons.prems(9) by blast
    then show "getBackoffDelay (retries ?x1 + j)
                \<le> checkedAt (attempts (envs ! Suc j) (item_id ?x1))
                    - failedAt (attempts (envs ! j) (item_id ?x1))"
      by simp
  qed
  have ih: "filter (\<lambda>q. item_id q = item_id ?x1) (queue (runPasses P envs ?st1)) =
           [?x1\<lparr>retries := retries ?x1 + length envs,
              lastAttempt := (if envs = [] then lastAttempt ?x1
                              else Some (failedAt (attempts (last envs) (item_id ?x1))))\<rparr>]
         \<and> \<not> isProcessing (runPasses P envs ?st1)
         \<and> settings (runPasses P envs ?st1) = settings ?st1
         \<and> token (runPasses P envs ?st1) = token ?st1
         \<and> mapping (runPasses P envs ?st1) = mapping ?st1
         \<and> distinct (map item_id (queue (runPasses P envs ?st1)))"
    by (rule Cons.IH [OF p1 p2 p3 p4 p5 p6 p7 p8 p9])
  then show ?case
    using cfg by simp
qed

lemma after_five_failures:
  assumes idle: "\<not> isProcessing st" and tok: "getToken st \<noteq> None"
    and repo: "repoFullName (settings st) \<noteq> []"
    and ids: "distinct (map item_id (queue st))" and mem: "x \<in> set (queue st)"
    and fresh: "retries x = 0"
    and six: "length envs = 6"
    and fails: "\<forall>env \<in> set envs.
           fst (processItem P (attempts env (item_id x)) x (settings st) (mapping st) st) \<noteq> Inr True"
    and spaced: "\<forall>j. Suc j < length envs \<longrightarrow>
           getBackoffDelay j
             \<le> checkedAt (attempts (envs ! Suc j) (item_id x)) - failedAt (attempts (envs ! j) (item_id x))"
  shows "filter (\<lambda>q. item_id q = item_id x) (queue (runPasses P (take 5 envs) st)) =
           [x\<lparr>retries := 5, lastAttempt := Some (failedAt (attempts (envs ! 4) (item_id x)))\<rparr>]
         \<and> \<not> isProcessing (runPasses P (take 5 envs) st)
         \<and> settings (runPasses P (take 5 envs) st) = settings st
         \<and> token (runPasses P (take 5 envs) st) = token st
         \<and> mapping (runPasses P (take 5 envs) st) = mapping st
         \<and> distinct (map item_id (queue (runPasses P (take 5 envs) st)))"
proof -
  let ?i = "item_id x"
  let ?five = "take 5 envs"
  let ?st5 = "runPasses P ?five st"
  have len5: "length ?five = 5" using six by simp
  have ne5: "?five \<noteq> []" using len5 by auto
  have last5: "last ?five = envs ! 4"
  proof -
    have "last ?five = ?five ! (length ?five - 1)"
      using ne5 by (rule last_conv_nth)
    then show ?thesis using len5 by simp
  qed
  have h6: "retries x + length ?five \<le> 5" using fresh len5 by simp
  have h7: "\<forall>env \<in> set ?five.
              fst (processItem P (attempts env ?i) x (settings st) (mapping st) st) \<noteq> Inr True"
    using fails by (meson in_set_takeD)
  have h8: "?five \<noteq> [] \<longrightarrow> \<not> skipForBackoff (checkedAt (attempts (hd ?five) ?i)) x"
    using fresh by (simp add: skipForBackoff_def split: option.splits)
  have h9: "\<forall>j. Suc j < length ?five \<longrightarrow>
              getBackoffDelay (retries x + j)
                \<le> checkedAt (attempts (?five ! Suc j) ?i) - failedAt (attempts (?five ! j) ?i)"
  proof (intro allI impI)
    fix j assume a: "Suc j < length ?five"
    then have "Suc j < length envs" using six by simp
    then have "getBackoffDelay j
                 \<le> checkedAt (attempts (envs ! Suc j) ?i) - failedAt (attempts (envs ! j) ?i)"
      using spaced by blast
    then show "getBackoffDelay (retries x + j)
                \<le> checkedAt (attempts (?five ! Suc j) ?i) - failedAt (attempts (?five ! j) ?i)"
      using a fresh by simp
  qed
  have after5: "filter (\<lambda>q. item_id q = ?i) (queue ?st5) =
           [x\<lparr>retries := retries x + length ?five,
              lastAttempt := (if ?five = [] then lastAttempt x
                              else Some (failedAt (attempts (last ?five) ?i)))\<rparr>]
         \<and> \<not> isProcessing ?st5
         \<and> settings ?st5 = settings st
         \<and> token ?st5 = token st
         \<and> mapping ?st5 = mapping st
         \<and> distinct (map item_id (queue ?st5))"
    by (rule failing_passes [OF idle tok repo ids mem h6 h7 h8 h9])
  then show ?thesis
    using fresh len5 ne5 last5 by simp
qed

text \<open>
  Claim C3, as amended. An item enqueued with \<open>retries = 0\<close> that fails in each of six
  consecutive passes in which it is due, the first attempt and five retries, is still queued
  after the fifth failure, with \<open>retries = 5\<close>, and is removed by the sixth; no later pass puts
  it back, in whatever environment, so it is attempted again only after a new submission.
\<close>

theorem retry_ceiling:
  assumes idle: "\<not> isProcessing st" and tok: "getToken st \<noteq> None"
    and repo: "repoFullName (settings st) \<noteq> []"
    and ids: "distinct (map item_id (queue st))" and mem: "x \<in> set (queue st)"
    and fresh: "retries x = 0"
    and six: "length envs = 6"
    and fails: "\<forall>env \<in> set envs.
           fst (processItem P (attempts env (item_id x)) x (settings st) (mapping st) st) \<noteq> Inr True"
    and spaced: "\<forall>j. Suc j < length envs \<longrightarrow>
           getBackoffDelay j
             \<le> checkedAt (attempts (envs ! Suc j) (item_id x)) - failedAt (attempts (envs ! j) (item_id x))"
  shows "filter (\<lambda>q. item_id q = item_id x) (queue (runPasses P (take 5 envs) st)) =
           [x\<lparr>retries := 5, lastAttempt := Some (failedAt (attempts (envs ! 4) (item_id x)))\<rparr>]
         \<and> item_id x \<notin> item_id ` set (queue (runPasses P envs st))
         \<and> item_id x \<notin> item_id ` set (queue (runPasses P (envs @ later) st))"
proof -
  let ?i = "item_id x"
  let ?five = "take 5 envs"
  let ?st5 = "runPasses P ?five st"
  let ?x5 = "x\<lparr>retries := 5, lastAttempt := Some (failedAt (attempts (envs ! 4) ?i))\<rparr>"
  have after5: "filter (\<lambda>q. item_id q = ?i) (queue ?st5) = [?x5]
         \<and> \<not> isProcessing ?st5
         \<and> settings ?st5 = settings st
         \<and> token ?st5 = token st
         \<and> mapping ?st5 = mapping st
         \<and> distinct (map item_id (queue ?st5))"
    by (rule after_five_failures [OF idle tok repo ids mem fresh six fails spaced])
  then have entry5: "filter (\<lambda>q. item_id q = ?i) (queue ?st5) = [?x5]"
    by simp
  have mem5: "?x5 \<in> set (queue ?st5)"
  proof -
    have "?x5 \<in> set (filter (\<lambda>q. item_id q = ?i) (queue ?st5))" using entry5 by simp
    then show ?thesis by simp
  qed
  have tok5: "getToken ?st5 \<noteq> None"
    using after5 tok getToken_cong [of ?st5 st] by simp
  have due6: "\<not> skipForBackoff (checkedAt (attempts (envs ! 5) (item_id ?x5))) ?x5"
  proof -
    have "Suc 4 < length envs" using six by simp
    then have "getBackoffDelay 4
                 \<le> checkedAt (attempts (envs ! Suc 4) ?i) - failedAt (attempts (envs ! 4) ?i)"
      using spaced by blast
    then show ?thesis by (simp add: skipForBackoff_def)
  qed
  have fails6: "fst (processItem P (attempts (envs ! 5) (item_id ?x5)) ?x5
                       (settings ?st5) (mapping ?st5) ?st5) \<noteq> Inr True"
  proof -
    have "envs ! 5 \<in> set envs" using six by simp
    then have "fst (processItem P (attempts (envs ! 5) ?i) x (settings st) (mapping st) st) \<noteq> Inr True"
      using fails by blast
    then show ?thesis
      using after5 processItem_result [where P = P and att = "attempts (envs ! 5) ?i" and item = x
              and r = 5 and l = "Some (failedAt (attempts (envs ! 4) ?i))"
              and sett = "settings st" and mp = "mapping st" and st = ?st5 and st' = st]
      by simp
  qed
  have split: "envs = ?five @ [envs ! 5]"
  proof -
    have lt: "5 < length envs"
      using six by simp
    have "take (Suc 5) envs = take 5 envs @ [envs ! 5]"
      by (rule take_Suc_conv_app_nth [OF lt])
    moreover have "take (Suc 5) envs = envs"
      using six by simp
    ultimately show ?thesis by simp
  qed
  have idle5: "\<not> isProcessing ?st5" and repo5: "repoFullName (settings ?st5) \<noteq> []"
    and ids5: "distinct (map item_id (queue ?st5))"
    using after5 repo by simp_all
  have "filter (\<lambda>q. item_id q = item_id ?x5) (queue (processQueue P (envs ! 5) ?st5)) =
          (if retries ?x5 \<ge> MAX_RETRIES then []
           else [?x5\<lparr>retries := retries ?x5 + 1,
                     lastAttempt := Some (failedAt (attempts (envs ! 5) (item_id ?x5)))\<rparr>])"
    by (rule pass_failed_item [OF idle5 tok5 repo5 ids5 mem5 due6 fails6])
  then have "filter (\<lambda>q. item_id q = ?i) (queue (processQueue P (envs ! 5) ?st5)) = []"
    by (simp add: MAX_RETRIES_def)
  moreover have "runPasses P envs st = processQueue P (envs ! 5) ?st5"
    using runPasses_append [of P ?five "[envs ! 5]" st] split by simp
  ultimately have "filter (\<lambda>q. item_id q = ?i) (queue (runPasses P envs st)) = []"
    by simp
  then have gone: "?i \<notin> item_id ` set (queue (runPasses P envs st))"
    by (auto simp: filter_empty_conv)
  have "item_id ` set (queue (runPasses P (envs @ later) st)) \<subseteq> item_id ` set (queue (runPasses P envs st))"
    using runPasses_ids [of P later "runPasses P envs st"] by (simp add: runPasses_append)
  then have "?i \<notin> item_id ` set (queue (runPasses P (envs @ later) st))"
    using gone by blast
  then show ?thesis using entry5 gone by blast
qed

text \<open>The six passes of \<open>sixPasses\<close>: every attempt is rejected, and each pass comes 99.5
  seconds after the failure before it.\<close>

lemma sixPasses_length: "length sixPasses = 6"
  by (simp add: sixPasses_def)

lemma sixPasses_nth: "j < 6 \<Longrightarrow> sixPasses ! j = failingPass (1700000100000 + 100000 * int j)"
  by (simp add: sixPasses_def)

lemma sixPasses_fail:
  "\<forall>env \<in> set sixPasses.
     fst (processItem P (attempts env i) x (settings (exampleStore\<lparr>queue := q\<rparr>))
            (mapping (exampleStore\<lparr>queue := q\<rparr>)) (exampleStore\<lparr>queue := q\<rparr>)) \<noteq> Inr True"
proof
  fix env assume "env \<in> set sixPasses"
  then obtain t where "env = failingPass t"
    by (auto simp: sixPasses_def)
  then have fg: "firstGet (attempts env i) = GetOk ''3f2a''"
    and pf: "putFile (attempts env i) = PutError ''GitHub API error 409: stale sha''"
    by (simp_all add: failingPass_def rejectingAt_def)
  show "fst (processItem P (attempts env i) x (settings (exampleStore\<lparr>queue := q\<rparr>))
            (mapping (exampleStore\<lparr>queue := q\<rparr>)) (exampleStore\<lparr>queue := q\<rparr>)) \<noteq> Inr True"
    by (rule processItem_rejected [OF fg _ _ pf])
       (simp_all add: exampleStore_def DEFAULT_SETTINGS_def)
qed

lemma sixPasses_spaced:
  "\<forall>j. Suc j < length sixPasses \<longrightarrow>
     getBackoffDelay j \<le> checkedAt (attempts (sixPasses ! Suc j) i) - failedAt (attempts (sixPasses ! j) i)"
proof (intro allI impI)
  fix j assume "Suc j < length sixPasses"
  then have j: "Suc j < 6" by (simp add: sixPasses_length)
  then have "checkedAt (attempts (sixPasses ! Suc j) i) - failedAt (attempts (sixPasses ! j) i) = 99500"
    by (simp add: sixPasses_nth failingPass_def rejectingAt_def)
  moreover have "getBackoffDelay j \<le> 60000"
    by (simp add: getBackoffDelay_def MAX_DELAY_def)
  ultimately show "getBackoffDelay j
      \<le> checkedAt (attempts (sixPasses ! Suc j) i) - failedAt (attempts (sixPasses ! j) i)"
    by simp
qed

lemma exampleStore_ready:
  "\<not> isProcessing (exampleStore\<lparr>queue := [exampleItem]\<rparr>)"
  "getToken (exampleStore\<lparr>queue := [exampleItem]\<rparr>) \<noteq> None"
  "repoFullName (settings (exampleStore\<lparr>queue := [exampleItem]\<rparr>)) \<noteq> []"
  "distinct (map item_id (queue (exampleStore\<lparr>queue := [exampleItem]\<rparr>)))"
  "exampleItem \<in> set (queue (exampleStore\<lparr>queue := [exampleItem]\<rparr>))"
  "retries exampleItem = 0"
  by (simp_all add: exampleStore_def getToken_def truthy_simps DEFAULT_SETTINGS_def exampleItem_def)

theorem retry_ceiling_witness:
  "retries exampleItem = 0 \<and> length sixPasses = 6
   \<and> filter (\<lambda>q. item_id q = item_id exampleItem)
        (queue (runPasses examplePlatform (take 5 sixPasses) (exampleStore\<lparr>queue := [exampleItem]\<rparr>)))
       = [exampleItem\<lparr>retries := 5, lastAttempt := Some 1700000500500\<rparr>]
   \<and> item_id exampleItem \<notin>
       item_id ` set (queue (runPasses examplePlatform sixPasses (exampleStore\<lparr>queue := [exampleItem]\<rparr>)))"
proof -
  have "failedAt (attempts (sixPasses ! 4) (item_id exampleItem)) = 1700000500500"
    by (simp add: sixPasses_nth failingPass_def rejectingAt_def)
  then show ?thesis
    using retry_ceiling [OF exampleStore_ready sixPasses_length sixPasses_fail sixPasses_spaced,
            of examplePlatform "[]"]
          exampleStore_ready(6) sixPasses_length
    by simp
qed

text \<open>After five consecutive failed attempts the item is still in the queue.\<close>

theorem five_failures_counterexample:
  "exampleItem\<lparr>retries := 5, lastAttempt := Some 1700000500500\<rparr>
     \<in> set (queue (runPasses examplePlatform (take 5 sixPasses) (exampleStore\<lparr>queue := [exampleItem]\<rparr>)))"
proof -
  have t: "failedAt (attempts (sixPasses ! 4) (item_id exampleItem)) = 1700000500500"
    by (simp add: sixPasses_nth failingPass_def rejectingAt_def)
  have "filter (\<lambda>q. item_id q = item_id exampleItem)
        (queue (runPasses examplePlatform (take 5 sixPasses) (exampleStore\<lparr>queue := [exampleItem]\<rparr>)))
       = [exampleItem\<lparr>retries := 5, lastAttempt := Some 1700000500500\<rparr>]"
    using after_five_failures [OF exampleStore_ready sixPasses_length sixPasses_fail sixPasses_spaced,
            of examplePlatform] t
    by simp
  then have "exampleItem\<lparr>retries := 5, lastAttempt := Some 1700000500500\<rparr>
     \<in> set (filter (\<lambda>q. item_id q = item_id exampleItem)
        (queue (runPasses examplePlatform (take 5 sixPasses) (exampleStore\<lparr>queue := [exampleItem]\<rparr>))))"
    by simp
  then show ?thesis by simp
qed

subsection \<open>Enqueueing a submission\<close>

text \<open>A submission with the fingerprint of a fresh entry of the solved set, or of the first
  queued item for its slug and language, is rejected and the queue stays as it is.\<close>

lemma enqueue_rejects_duplicates:
  "(solved st slg = Some e \<and> s_sha256 e = Some (fingerprint P slg lang cde)
      \<and> solvedCheckAt env - solvedAt e < 60000
    \<or> find (\<lambda>item. slug item = slg \<and> language item = lang) (queue st) = Some i
      \<and> fingerprint P (slug i) (language i) (code i) = fingerprint P slg lang cde)
   \<Longrightarrow> fst (enqueueSubmission P env slg ttl cde lang cat lst diff mt src st) = False
       \<and> queue (snd (enqueueSubmission P env slg ttl cde lang cat lst diff mt src st)) = queue st"
  by (auto simp: enqueueSubmission_def Let_def addLog_def split: option.splits)

text \<open>
  Claim C1. An accepted submission is to replace the queued item of its slug and language. The
  source removes the old item in the store and then saves, over the store, the array it read
  before the removal with the new item pushed on it. So whenever \<open>enqueueSubmission\<close> returns
  true, the queue is the queue before with the new item at its end: nothing has been removed,
  and a resubmission with other code leaves two items queued for one slug and language.
\<close>

theorem enqueue_keeps_replaced_item:
  assumes "fst (enqueueSubmission P env slg ttl cde lang cat lst diff mt src st)"
  shows "queue (snd (enqueueSubmission P env slg ttl cde lang cat lst diff mt src st)) =
           queue st @ [newQueueItem env st slg ttl cde lang cat lst diff mt src]"
  using assms
  by (auto simp: enqueueSubmission_def Let_def addLog_def removeFromQueue_def
           split: option.splits if_splits)

theorem enqueue_keeps_replaced_item_witness:
  "fst (enqueueSubmission examplePlatform exampleEnqueue ''two-sum'' ''Two Sum'' ''def g():pass''
          ''python'' None None None None dom (exampleStore\<lparr>queue := [exampleItem]\<rparr>))
   \<and> map (\<lambda>i. (slug i, language i, code i))
        (queue (snd (enqueueSubmission examplePlatform exampleEnqueue ''two-sum'' ''Two Sum''
                       ''def g():pass'' ''python'' None None None None dom
                       (exampleStore\<lparr>queue := [exampleItem]\<rparr>))))
       = [(''two-sum'', ''python'', ''def f():pass''), (''two-sum'', ''python'', ''def g():pass'')]"
proof -
  have accepted: "fst (enqueueSubmission examplePlatform exampleEnqueue ''two-sum'' ''Two Sum''
          ''def g():pass'' ''python'' None None None None dom (exampleStore\<lparr>queue := [exampleItem]\<rparr>))"
    by (simp add: enqueueSubmission_def Let_def exampleStore_def exampleItem_def fingerprint_def
          examplePlatform_def)
  from enqueue_keeps_replaced_item [OF accepted] accepted
  show ?thesis
    by (simp add: newQueueItem_def Let_def exampleStore_def exampleItem_def)
qed

end
